theory Spec2Isabelle
  imports Main
begin

section \<open>StreamDeckController: key images and write suppression\<close>

text \<open>
  A shallow embedding of \<^verbatim>\<open>src/controller/steam_deck.py\<close>.  Python integers are
  \<^typ>\<open>int\<close>, key numbers drawn from \<^verbatim>\<open>range(key_count())\<close> are \<^typ>\<open>nat\<close>, a dict
  is a map, a raised exception is a returned error together with the state reached when
  it was raised.
\<close>

subsection \<open>Module constants\<close>

definition KEY_SPACING :: "int \<times> int" where
  "KEY_SPACING = (36, 36)"

definition FOREGROUND_COLOR :: string where
  "FOREGROUND_COLOR = ''#FFFFFF''"

definition BACKGROUND_COLOR :: string where
  "BACKGROUND_COLOR = ''#9D2235''"

definition BACKGROUND_IMAGE :: string where
  "BACKGROUND_IMAGE = ''Decepticub.png''"

definition ACTIVE_COLOR :: string where
  "ACTIVE_COLOR = BACKGROUND_COLOR"

definition NOT_ACTIVE_COLOR :: string where
  "NOT_ACTIVE_COLOR = ''#424242''"

subsection \<open>Exceptions\<close>

datatype error =
    TransportError
  | IndexError
  | KeyError
  | ZeroDivisionError
  | FileNotFoundError

subsection \<open>Images\<close>

text \<open>
  Pixel buffers are produced by Pillow, \<^verbatim>\<open>PILHelper\<close> and \<^verbatim>\<open>util.image_util\<close>.  An image
  is recorded as the expression that built it: one constructor per library call the
  controller makes, holding the arguments of the call.  Only equalities between images
  are drawn from this representation.
\<close>

datatype image =
    Decoded string int int
      \<comment> \<open>\<^verbatim>\<open>Image.open(path).convert("RGBA")\<close>: the file's content, its width and height\<close>
  | NewImage string "int \<times> int" string
      \<comment> \<open>\<^verbatim>\<open>Image.new(mode, size, color)\<close>\<close>
  | Paste image image "int \<times> int"
      \<comment> \<open>\<^verbatim>\<open>base.paste(source, position)\<close>\<close>
  | Fit image "int \<times> int"
      \<comment> \<open>\<^verbatim>\<open>ImageOps.fit(image, size, LANCZOS)\<close>\<close>
  | Crop image "int \<times> int \<times> int \<times> int"
      \<comment> \<open>\<^verbatim>\<open>image.crop(region)\<close>\<close>
  | Svg string int
      \<comment> \<open>\<^verbatim>\<open>image_util.image_from_svg(path, size)\<close>: the file's content and the size\<close>
  | Colored image string
      \<comment> \<open>\<^verbatim>\<open>image_util.color_image(image, color)\<close>\<close>
  | ScaledKeyImage "int \<times> int" image "int list" string
      \<comment> \<open>\<^verbatim>\<open>PILHelper.create_scaled_key_image(deck, image, margins, background)\<close>\<close>
  | DrawText image string
      \<comment> \<open>\<^verbatim>\<open>draw.text((width / 2, height - 5), text, font, anchor="ms", fill="white")\<close>\<close>

datatype native = Native "int \<times> int" image
  \<comment> \<open>\<^verbatim>\<open>PILHelper.to_native_key_format(deck, image)\<close>\<close>

fun image_size :: "image \<Rightarrow> int \<times> int" where
  "image_size (Decoded _ w h) = (w, h)"
| "image_size (NewImage _ sz _) = sz"
| "image_size (Paste base _ _) = image_size base"
| "image_size (Fit _ sz) = sz"
| "image_size (Crop _ (x0, y0, x1, y1)) = (x1 - x0, y1 - y0)"
| "image_size (Svg _ n) = (n, n)"
| "image_size (Colored img _) = image_size img"
| "image_size (ScaledKeyImage sz _ _ _) = sz"
| "image_size (DrawText img _) = image_size img"

subsection \<open>The device\<close>

text \<open>
  The \<^verbatim>\<open>StreamDeck\<close> object is an external collaborator.  Its model keeps what the
  controller reads (key count, layout, key image size, the open flag), the calls that
  reached the transport, oldest first, and a script saying which of the transport calls
  still to come raise \<^verbatim>\<open>TransportError\<close> (\<open>True\<close>: the call raises; an exhausted script:
  every call succeeds).  A call that raises is recorded and changes nothing else.
\<close>

datatype hw_op =
    HwOpen
  | HwClose
  | HwGetSerialNumber
  | HwGetFirmwareVersion
  | HwSetBrightness int
  | HwSetKeyImage nat native

record deck =
  d_key_count :: nat
  d_key_layout :: "int \<times> int"
  d_key_size :: "int \<times> int"
  d_is_open :: bool
  d_has_callback :: bool
  d_faults :: "bool list"
  d_trace :: "hw_op list"

definition hw_effect :: "hw_op \<Rightarrow> deck \<Rightarrow> deck" where
  "hw_effect op d =
     (case op of
        HwOpen \<Rightarrow> d\<lparr>d_is_open := True\<rparr>
      | HwClose \<Rightarrow> d\<lparr>d_is_open := False\<rparr>
      | _ \<Rightarrow> d)"

definition transport :: "hw_op \<Rightarrow> deck \<Rightarrow> error option \<times> deck" where
  "transport op d =
     (let d' = d\<lparr>d_faults := tl (d_faults d), d_trace := d_trace d @ [op]\<rparr>
      in if d_faults d \<noteq> [] \<and> hd (d_faults d)
         then (Some TransportError, d')
         else (None, hw_effect op d'))"

fun key_writes :: "hw_op list \<Rightarrow> (nat \<times> native) list" where
  "key_writes [] = []"
| "key_writes (HwSetKeyImage k img # ops) = (k, img) # key_writes ops"
| "key_writes (_ # ops) = key_writes ops"

subsection \<open>Geometry\<close>

text \<open>Lines 46 to 56 of \<^verbatim>\<open>create_full_deck_sized_image\<close>: the size of the full panel.\<close>

definition full_deck_image_size :: "deck \<Rightarrow> int \<times> int" where
  "full_deck_image_size d =
     (let (key_rows, key_cols) = d_key_layout d;
          (key_width, key_height) = d_key_size d;
          (spacing_x, spacing_y) = KEY_SPACING;
          key_width = key_width * key_cols;
          key_height = key_height * key_rows;
          spacing_x = spacing_x * (key_cols - 1);
          spacing_y = spacing_y * (key_rows - 1)
      in (key_width + spacing_x, key_height + spacing_y))"

text \<open>
  Lines 82 to 92 of \<^verbatim>\<open>crop_key_image_from_deck_sized_image\<close>: the region of a key.
  \<^verbatim>\<open>//\<close> and \<^verbatim>\<open>%\<close> raise \<^verbatim>\<open>ZeroDivisionError\<close> on a zero divisor and round towards
  minus infinity otherwise, as \<open>div\<close> and \<open>mod\<close> on \<^typ>\<open>int\<close> do.  There is no other check.
\<close>

definition key_region :: "deck \<Rightarrow> int \<Rightarrow> error + int \<times> int \<times> int \<times> int" where
  "key_region d key =
     (let (_, key_cols) = d_key_layout d;
          (key_width, key_height) = d_key_size d;
          (spacing_x, spacing_y) = KEY_SPACING
      in if key_cols = 0 then Inl ZeroDivisionError
         else
           let row = key div key_cols;
               col = key mod key_cols;
               start_x = col * (key_width + spacing_x);
               start_y = row * (key_height + spacing_y)
           in Inr (start_x, start_y, start_x + key_width, start_y + key_height))"

definition create_key_image :: "deck \<Rightarrow> string \<Rightarrow> image" where
  "create_key_image d background = NewImage ''RGB'' (d_key_size d) background"

definition to_native_key_format :: "deck \<Rightarrow> image \<Rightarrow> native" where
  "to_native_key_format d img = Native (d_key_size d) img"

definition crop_key_image_from_deck_sized_image :: "deck \<Rightarrow> image \<Rightarrow> int \<Rightarrow> error + native" where
  "crop_key_image_from_deck_sized_image d img key =
     (case key_region d key of
        Inl e \<Rightarrow> Inl e
      | Inr region \<Rightarrow>
          let segment = Crop img region;
              key_image = Paste (create_key_image d ''black'') segment (0, 0)
          in Inr (to_native_key_format d key_image))"

subsection \<open>Configuration and controller state\<close>

text \<open>
  Modelled from the spec: the declarations of \<^verbatim>\<open>ButtonConfig\<close> and \<^verbatim>\<open>ConfigStore\<close> in
  \<^verbatim>\<open>config.config_store\<close> are not among the sources.  A button has an icon (possibly
  empty), a label and a selection flag; the store exposes \<^verbatim>\<open>remote_connected\<close> and an
  ordered sequence of optional buttons indexed by key.  These are the fields the
  controller reads.
\<close>

record button_config =
  icon :: string
  label :: string
  selected :: bool

record config_store =
  remote_connected :: bool
  buttons :: "button_config option list"

text \<open>
  An entry of \<^verbatim>\<open>_last_images\<close> is a pair of a string and \<^verbatim>\<open>None\<close> or a cache key.
\<close>

type_synonym cache_key = "string \<times> string \<times> string"

type_synonym tag = "string \<times> cache_key option"

text \<open>
  The fields of the controller, and with them the part of the world its methods touch:
  the files under the assets path (path to content, width and height) and the paths
  handed to the icon loader so far, oldest first.
\<close>

record controller =
  deck :: deck
  config :: config_store
  assets_path :: string
  default_background :: "nat \<rightharpoonup> native"
  icon_cache :: "cache_key \<rightharpoonup> image"
  last_images :: "tag list"
  files :: "string \<rightharpoonup> string \<times> int \<times> int"
  icon_loads :: "string list"

subsection \<open>Sequencing\<close>

definition then_do ::
  "('s \<Rightarrow> error option \<times> 's) \<Rightarrow> ('s \<Rightarrow> error option \<times> 's) \<Rightarrow> 's \<Rightarrow> error option \<times> 's" where
  "then_do f g s = (case f s of (None, s') \<Rightarrow> g s' | (Some e, s') \<Rightarrow> (Some e, s'))"

text \<open>\<^verbatim>\<open>for k in ks: body(k)\<close>; an exception leaves the loop.\<close>

fun for_each ::
  "nat list \<Rightarrow> (nat \<Rightarrow> 's \<Rightarrow> error option \<times> 's) \<Rightarrow> 's \<Rightarrow> error option \<times> 's" where
  "for_each [] body s = (None, s)"
| "for_each (k # ks) body s =
     (case body k s of
        (None, s') \<Rightarrow> for_each ks body s'
      | (Some e, s') \<Rightarrow> (Some e, s'))"

definition deck_call :: "hw_op \<Rightarrow> controller \<Rightarrow> error option \<times> controller" where
  "deck_call op s = (case transport op (deck s) of (r, d') \<Rightarrow> (r, s\<lparr>deck := d'\<rparr>))"

subsection \<open>The full panel and its slices\<close>

text \<open>\<^verbatim>\<open>os.path.join\<close> of two components (POSIX).\<close>

definition path_join :: "string \<Rightarrow> string \<Rightarrow> string" where
  "path_join a b =
     (if b \<noteq> [] \<and> hd b = CHR ''/'' then b
      else if a = [] \<or> last a = CHR ''/'' then a @ b
      else a @ ''/'' @ b)"

definition create_full_deck_sized_image ::
  "deck \<Rightarrow> string \<Rightarrow> (string \<rightharpoonup> string \<times> int \<times> int) \<Rightarrow> string \<Rightarrow> error + image" where
  "create_full_deck_sized_image d assets fs image_filename =
     (let full_deck_image_size = full_deck_image_size d
      in case fs (path_join assets image_filename) of
           None \<Rightarrow> Inl FileNotFoundError
         | Some (content, w, h) \<Rightarrow>
             let foreground = Decoded content w h
             in if snd full_deck_image_size = 0 then Inl ZeroDivisionError
                else
                  let image = NewImage ''RGBA''
                        (snd (image_size foreground) * fst full_deck_image_size
                           div snd full_deck_image_size,
                         snd (image_size foreground))
                        BACKGROUND_COLOR;
                      image = Paste image foreground
                        ((fst (image_size image) - fst (image_size foreground)) div 2, 0)
                  in Inr (Fit image full_deck_image_size))"

fun crop_keys :: "deck \<Rightarrow> image \<Rightarrow> nat list \<Rightarrow> (nat \<rightharpoonup> native) \<Rightarrow> error + (nat \<rightharpoonup> native)" where
  "crop_keys d img [] key_images = Inr key_images"
| "crop_keys d img (k # ks) key_images =
     (case crop_key_image_from_deck_sized_image d img (int k) of
        Inl e \<Rightarrow> Inl e
      | Inr key_image \<Rightarrow> crop_keys d img ks (key_images(k \<mapsto> key_image)))"

definition generate_key_images_from_deck_sized_image ::
  "deck \<Rightarrow> string \<Rightarrow> (string \<rightharpoonup> string \<times> int \<times> int) \<Rightarrow> string \<Rightarrow> error + (nat \<rightharpoonup> native)" where
  "generate_key_images_from_deck_sized_image d assets fs image_filename =
     (case create_full_deck_sized_image d assets fs image_filename of
        Inl e \<Rightarrow> Inl e
      | Inr img \<Rightarrow> crop_keys d img [0..<d_key_count d] Map.empty)"

text \<open>
  \<^verbatim>\<open>__init__\<close>.  The font lookup has no part in what follows and is left out.
\<close>

definition init ::
  "deck \<Rightarrow> config_store \<Rightarrow> string \<Rightarrow> (string \<rightharpoonup> string \<times> int \<times> int) \<Rightarrow> error + controller" where
  "init d cfg assets fs =
     (case generate_key_images_from_deck_sized_image d assets fs BACKGROUND_IMAGE of
        Inl e \<Rightarrow> Inl e
      | Inr key_images \<Rightarrow>
          Inr \<lparr>deck = d, config = cfg, assets_path = assets,
               default_background = key_images,
               icon_cache = Map.empty,
               last_images = replicate (d_key_count d) (''none'', None),
               files = fs, icon_loads = []\<rparr>)"

subsection \<open>Writing the background\<close>

text \<open>The body of the loop of \<^verbatim>\<open>render_all_keys\<close>, lines 114 to 119.\<close>

definition render_all_keys_body ::
  "(nat \<rightharpoonup> native) \<Rightarrow> nat \<Rightarrow> controller \<Rightarrow> error option \<times> controller" where
  "render_all_keys_body key_images k s =
     (case key_images k of
        None \<Rightarrow> (Some KeyError, s)
      | Some key_image \<Rightarrow>
          let unique_key = (''render_all'', None)
          in if length (last_images s) \<le> k then (Some IndexError, s)
             else if last_images s ! k \<noteq> unique_key then
               (case deck_call (HwSetKeyImage k key_image) s of
                  (Some e, s') \<Rightarrow> (Some e, s')
                | (None, s') \<Rightarrow>
                    (None, s'\<lparr>last_images := (last_images s')[k := unique_key]\<rparr>))
             else (None, s))"

definition render_all_keys :: "(nat \<rightharpoonup> native) \<Rightarrow> controller \<Rightarrow> error option \<times> controller" where
  "render_all_keys key_images s =
     for_each [0..<d_key_count (deck s)] (render_all_keys_body key_images) s"

definition render_default_background :: "controller \<Rightarrow> error option \<times> controller" where
  "render_default_background s = render_all_keys (default_background s) s"

subsection \<open>Rendering a key\<close>

text \<open>
  Modelled from the spec: \<^verbatim>\<open>util.image_util\<close> is not among the sources.  Its
  \<^verbatim>\<open>image_from_svg\<close> loads the icon asset at a path and fails when the asset cannot be
  loaded; \<^verbatim>\<open>color_image\<close> recolours it.  Each call of the loader is recorded.
\<close>

definition image_from_svg :: "string \<Rightarrow> int \<Rightarrow> controller \<Rightarrow> (error + image) \<times> controller" where
  "image_from_svg path n s =
     (let s' = s\<lparr>icon_loads := icon_loads s @ [path]\<rparr>
      in case files s path of
           None \<Rightarrow> (Inl FileNotFoundError, s')
         | Some (content, _, _) \<Rightarrow> (Inr (Svg content n), s'))"

definition color_image :: "image \<Rightarrow> string \<Rightarrow> image" where
  "color_image img color = Colored img color"

definition create_scaled_key_image :: "deck \<Rightarrow> image \<Rightarrow> int list \<Rightarrow> string \<Rightarrow> image" where
  "create_scaled_key_image d img margins background =
     ScaledKeyImage (d_key_size d) img margins background"

definition render_key ::
  "string \<Rightarrow> string \<Rightarrow> string \<Rightarrow> controller \<Rightarrow> (error + native) \<times> controller" where
  "render_key icon_filename label_text background s =
     (let cache_key = (icon_filename, label_text, background)
      in case icon_cache s cache_key of
           Some cached \<Rightarrow> (Inr (to_native_key_format (deck s) cached), s)
         | None \<Rightarrow>
             (case (if icon_filename \<noteq> []
                    then
                      let icon_path = path_join (assets_path s) (icon_filename @ ''.svg'')
                      in case image_from_svg icon_path 48 s of
                           (Inl e, s') \<Rightarrow> (Inl e, s')
                         | (Inr svg, s') \<Rightarrow>
                             let colored = color_image svg FOREGROUND_COLOR
                             in (Inr (create_scaled_key_image (deck s') colored [0, 0, 20, 0]
                                        background), s')
                    else (Inr (create_key_image (deck s) background), s)) of
                (Inl e, s') \<Rightarrow> (Inl e, s')
              | (Inr img, s') \<Rightarrow>
                  let img = DrawText img label_text;
                      s'' = s'\<lparr>icon_cache := (icon_cache s')(cache_key \<mapsto> img)\<rparr>
                  in (Inr (to_native_key_format (deck s'') img), s'')))"

subsection \<open>Writing one key\<close>

definition set_key_empty :: "nat \<Rightarrow> controller \<Rightarrow> error option \<times> controller" where
  "set_key_empty key s =
     (let img = create_key_image (deck s) NOT_ACTIVE_COLOR;
          unique_key = (''empty_key'', None)
      in if length (last_images s) \<le> key then (Some IndexError, s)
         else if last_images s ! key \<noteq> unique_key then
           (case deck_call (HwSetKeyImage key (to_native_key_format (deck s) img)) s of
              (Some e, s') \<Rightarrow> (Some e, s')
            | (None, s') \<Rightarrow>
                (None, s'\<lparr>last_images := (last_images s')[key := unique_key]\<rparr>))
         else (None, s))"

definition set_key_image :: "nat \<Rightarrow> button_config \<Rightarrow> controller \<Rightarrow> error option \<times> controller" where
  "set_key_image key button s =
     (let background = (if selected button then ACTIVE_COLOR else NOT_ACTIVE_COLOR)
      in case render_key (icon button) (label button) background s of
           (Inl e, s1) \<Rightarrow> (Some e, s1)
         | (Inr img, s1) \<Rightarrow>
             let unique_key = (''render_key'', Some (icon button, label button, background))
             in if length (last_images s1) \<le> key then (Some IndexError, s1)
                else if last_images s1 ! key \<noteq> unique_key then
                  (case deck_call (HwSetKeyImage key img) s1 of
                     (Some e, s') \<Rightarrow> (Some e, s')
                   | (None, s') \<Rightarrow>
                       (None, s'\<lparr>last_images := (last_images s')[key := unique_key]\<rparr>))
                else (None, s1))"

subsection \<open>The update cycle and the session\<close>

definition update_body :: "nat \<Rightarrow> controller \<Rightarrow> error option \<times> controller" where
  "update_body key s =
     (let button = (if key < length (buttons (config s)) then buttons (config s) ! key
                    else None)
      in case button of
           None \<Rightarrow> set_key_empty key s
         | Some b \<Rightarrow> set_key_image key b s)"

definition update :: "controller \<Rightarrow> error option \<times> controller" where
  "update s =
     (if \<not> remote_connected (config s) then render_default_background s
      else for_each [0..<d_key_count (deck s)] update_body s)"

definition is_open :: "controller \<Rightarrow> bool" where
  "is_open s = d_is_open (deck s)"

definition close_deck :: "controller \<Rightarrow> error option \<times> controller" where
  "close_deck s =
     (if d_is_open (deck s)
      then then_do render_default_background (deck_call HwClose) s
      else (None, s))"

definition set_key_callback :: "controller \<Rightarrow> error option \<times> controller" where
  "set_key_callback s = (None, s\<lparr>deck := (deck s)\<lparr>d_has_callback := True\<rparr>\<rparr>)"

definition open_session :: "controller \<Rightarrow> error option \<times> controller" where
  "open_session s =
     then_do (deck_call HwOpen)
       (then_do (deck_call HwGetSerialNumber)
          (then_do (deck_call HwGetFirmwareVersion)
             (then_do (deck_call (HwSetBrightness 80))
                (then_do set_key_callback update)))) s"

definition close_session :: "controller \<Rightarrow> error option \<times> controller" where
  "close_session s = close_deck s"

definition enter :: "controller \<Rightarrow> error option \<times> controller" where
  "enter s = open_session s"

definition exit_session :: "controller \<Rightarrow> error option \<times> controller" where
  "exit_session s =
     (case close_session s of
        (Some TransportError, s') \<Rightarrow> (None, s')
      | r \<Rightarrow> r)"

subsection \<open>Notions of the specification\<close>

text \<open>
  The specification calls the entries of \<^verbatim>\<open>_last_images\<close> write tags: the value stored by
  \<^verbatim>\<open>__init__\<close> (unknown), the one stored by \<^verbatim>\<open>render_all_keys\<close> (background), by
  \<^verbatim>\<open>set_key_empty\<close> (empty) and by \<^verbatim>\<open>set_key_image\<close> (rendered).
\<close>

definition unknown_tag :: tag where
  "unknown_tag = (''none'', None)"

definition background_tag :: tag where
  "background_tag = (''render_all'', None)"

definition empty_tag :: tag where
  "empty_tag = (''empty_key'', None)"

definition rendered_tag :: "button_config \<Rightarrow> tag" where
  "rendered_tag b =
     (''render_key'',
      Some (icon b, label b, if selected b then ACTIVE_COLOR else NOT_ACTIVE_COLOR))"

text \<open>The image \<^verbatim>\<open>set_key_empty\<close> sends, and the call \<^verbatim>\<open>set_key_image\<close> makes of \<^verbatim>\<open>render_key\<close>.\<close>

definition empty_image :: "controller \<Rightarrow> native" where
  "empty_image s = to_native_key_format (deck s) (create_key_image (deck s) NOT_ACTIVE_COLOR)"

definition render_button :: "button_config \<Rightarrow> controller \<Rightarrow> (error + native) \<times> controller" where
  "render_button b s =
     render_key (icon b) (label b) (if selected b then ACTIVE_COLOR else NOT_ACTIVE_COLOR) s"

text \<open>Whether the next call to reach the transport raises, by the script of the device.\<close>

definition next_call_fails :: "controller \<Rightarrow> bool" where
  "next_call_fails s = (d_faults (deck s) \<noteq> [] \<and> hd (d_faults (deck s)))"

text \<open>
  What the specification asks of one pass through the write suppressor, from state \<open>s\<close>
  with outcome \<open>r\<close>: nothing happens when the stored tag is the candidate; otherwise the
  device receives exactly one more call, the write of this key, and the pass returns with
  the candidate stored unless that call raised, in which case the pass ends in
  \<^verbatim>\<open>TransportError\<close> with the tags as they were.
\<close>

definition writes_once ::
  "nat \<Rightarrow> tag \<Rightarrow> native \<Rightarrow> controller \<Rightarrow> error option \<times> controller \<Rightarrow> bool" where
  "writes_once key candidate img s r =
     (if last_images s ! key = candidate
      then r = (None, s)
      else d_trace (deck (snd r)) = d_trace (deck s) @ [HwSetKeyImage key img] \<and>
           fst r = (if next_call_fails s then Some TransportError else None) \<and>
           last_images (snd r) =
             (if next_call_fails s then last_images s else (last_images s)[key := candidate]))"

text \<open>
  Whether one of the transport calls made between two states raised: the calls are those
  the trace grew by, their outcomes the entries of the script of the earlier state.
\<close>

definition raised_between :: "controller \<Rightarrow> controller \<Rightarrow> bool" where
  "raised_between s s' =
     (True \<in> set (take (length (d_trace (deck s')) - length (d_trace (deck s)))
                   (d_faults (deck s))))"

text \<open>
  The bookkeeping that goes with it, for a step from \<open>s\<close> with outcome \<open>r\<close>: the trace only
  grows, each call consumes one entry of the script, and a call that raised makes the step
  end in \<^verbatim>\<open>TransportError\<close>.
\<close>

definition calls_accounted :: "controller \<Rightarrow> error option \<times> controller \<Rightarrow> bool" where
  "calls_accounted s r =
     (length (d_trace (deck s)) \<le> length (d_trace (deck (snd r))) \<and>
      d_faults (deck (snd r)) =
        drop (length (d_trace (deck (snd r))) - length (d_trace (deck s))) (d_faults (deck s)) \<and>
      (if raised_between s (snd r) then fst r = Some TransportError else True))"

subsection \<open>Concrete inputs\<close>

text \<open>Scenario A of the specification: two rows of four keys of 72 by 72 pixels.\<close>

definition scenario_a :: deck where
  "scenario_a =
     \<lparr>d_key_count = 8, d_key_layout = (2, 4), d_key_size = (72, 72),
      d_is_open = False, d_has_callback = False, d_faults = [], d_trace = []\<rparr>"

text \<open>
  A deck of one row of two keys, an assets directory holding the background image and one
  icon, a button, and the configuration with the remote side away and present.
\<close>

definition demo_deck :: deck where
  "demo_deck =
     \<lparr>d_key_count = 2, d_key_layout = (1, 2), d_key_size = (72, 72),
      d_is_open = False, d_has_callback = False, d_faults = [], d_trace = []\<rparr>"

definition demo_files :: "string \<rightharpoonup> string \<times> int \<times> int" where
  "demo_files =
     [''assets/Decepticub.png'' \<mapsto> (''decepticub'', 512, 512),
      ''assets/gear.svg'' \<mapsto> (''gear'', 24, 24)]"

definition gear_on :: button_config where
  "gear_on = \<lparr>icon = ''gear'', label = ''On'', selected = True\<rparr>"

definition offline :: config_store where
  "offline = \<lparr>remote_connected = False, buttons = [Some gear_on]\<rparr>"

definition online :: config_store where
  "online = \<lparr>remote_connected = True, buttons = [Some gear_on]\<rparr>"

text \<open>
  The controller \<^verbatim>\<open>__init__\<close> builds from them: the panel is 180 by 72 pixels, the second key
  starts at x = 108.
\<close>

definition demo_panel :: image where
  "demo_panel =
     Fit (Paste (NewImage ''RGBA'' (1280, 512) BACKGROUND_COLOR)
                (Decoded ''decepticub'' 512 512) (384, 0))
         (180, 72)"

definition demo_slice :: "int \<Rightarrow> native" where
  "demo_slice x0 =
     Native (72, 72)
       (Paste (NewImage ''RGB'' (72, 72) ''black'') (Crop demo_panel (x0, 0, x0 + 72, 72)) (0, 0))"

definition demo :: controller where
  "demo =
     \<lparr>deck = demo_deck, config = offline, assets_path = ''assets'',
      default_background = [0 \<mapsto> demo_slice 0, 1 \<mapsto> demo_slice 108],
      icon_cache = Map.empty,
      last_images = [(''none'', None), (''none'', None)],
      files = demo_files, icon_loads = []\<rparr>"

text \<open>
  The states it goes through: after \<^verbatim>\<open>open\<close>, after an icon was rendered, after an update
  with the remote side present, after \<^verbatim>\<open>close\<close>; and a state whose device will fail as
  scripted.
\<close>

definition demo_opened :: controller where
  "demo_opened =
     demo\<lparr>deck := demo_deck
            \<lparr>d_is_open := True, d_has_callback := True,
             d_trace := [HwOpen, HwGetSerialNumber, HwGetFirmwareVersion, HwSetBrightness 80,
                         HwSetKeyImage 0 (demo_slice 0), HwSetKeyImage 1 (demo_slice 108)]\<rparr>,
          last_images := [(''render_all'', None), (''render_all'', None)]\<rparr>"

definition demo_gear_image :: image where
  "demo_gear_image =
     DrawText (ScaledKeyImage (72, 72) (Colored (Svg ''gear'' 48) ''#FFFFFF'') [0, 0, 20, 0]
                 ''#9D2235'') ''On''"

definition demo_rendered :: controller where
  "demo_rendered =
     demo\<lparr>icon_cache := [(''gear'', ''On'', ''#9D2235'') \<mapsto> demo_gear_image],
          icon_loads := [''assets/gear.svg'']\<rparr>"

definition demo_online :: controller where
  "demo_online =
     demo_opened
       \<lparr>deck := (deck demo_opened)
          \<lparr>d_trace := d_trace (deck demo_opened) @
             [HwSetKeyImage 0 (Native (72, 72) demo_gear_image),
              HwSetKeyImage 1 (Native (72, 72) (NewImage ''RGB'' (72, 72) ''#424242''))]\<rparr>,
        config := online,
        icon_cache := [(''gear'', ''On'', ''#9D2235'') \<mapsto> demo_gear_image],
        last_images := [(''render_key'', Some (''gear'', ''On'', ''#9D2235'')), (''empty_key'', None)],
        icon_loads := [''assets/gear.svg'']\<rparr>"

definition demo_closed :: controller where
  "demo_closed =
     demo_opened\<lparr>deck := (deck demo_opened)
        \<lparr>d_is_open := False, d_trace := d_trace (deck demo_opened) @ [HwClose]\<rparr>\<rparr>"

definition with_faults :: "bool list \<Rightarrow> controller \<Rightarrow> controller" where
  "with_faults fs s = s\<lparr>deck := (deck s)\<lparr>d_faults := fs\<rparr>\<rparr>"

section \<open>Properties\<close>

subsection \<open>Geometry\<close>

text \<open>
  C3.  For every layout and key size, the size of the full panel is
  (cols * width + (cols - 1) * spacing_x, rows * height + (rows - 1) * spacing_y), and the
  region of key i, with row = i div cols and col = i mod cols, starts at
  (col * (width + spacing_x), row * (height + spacing_y)) and ends at start + (width,
  height).  The spacing is the module constant \<^verbatim>\<open>KEY_SPACING\<close>.  In scenario A the panel
  is 396 by 180 and key 5 occupies x0 = 108, y0 = 108, x1 = 180, y1 = 180.
\<close>

theorem panel_and_tile_geometry:
  "full_deck_image_size d =
     (snd (d_key_layout d) * fst (d_key_size d) + (snd (d_key_layout d) - 1) * fst KEY_SPACING,
      fst (d_key_layout d) * snd (d_key_size d) + (fst (d_key_layout d) - 1) * snd KEY_SPACING)
   \<and> (snd (d_key_layout d) \<noteq> 0 \<longrightarrow>
        key_region d i =
          (let row = i div snd (d_key_layout d);
               col = i mod snd (d_key_layout d);
               x0 = col * (fst (d_key_size d) + fst KEY_SPACING);
               y0 = row * (snd (d_key_size d) + snd KEY_SPACING)
           in Inr (x0, y0, x0 + fst (d_key_size d), y0 + snd (d_key_size d))))
   \<and> full_deck_image_size scenario_a = (396, 180)
   \<and> key_region scenario_a 5 = Inr (108, 108, 180, 180)"
  by (simp add: full_deck_image_size_def key_region_def KEY_SPACING_def scenario_a_def
      Let_def split: prod.splits)

theorem panel_and_tile_geometry_witness:
  "snd (d_key_layout scenario_a) \<noteq> 0 \<and> key_region scenario_a 6 = Inr (216, 108, 288, 180)"
  using panel_and_tile_geometry [of scenario_a 6]
  by (simp add: scenario_a_def KEY_SPACING_def)

text \<open>
  C6, as the code has it.  The region computation has no range check: for every index,
  inside the grid or not, and a non-zero column count it returns the region starting at
  (col * (width + spacing_x), row * (height + spacing_y)) with extent (width, height),
  where row = index div cols and col = index mod cols, and the crop built on it returns
  a key image; neither ever fails with an index error.
\<close>

theorem key_region_unchecked:
  "key_region d i \<noteq> Inl IndexError
   \<and> crop_key_image_from_deck_sized_image d img i \<noteq> Inl IndexError
   \<and> (snd (d_key_layout d) \<noteq> 0 \<longrightarrow>
        (\<exists>x0 y0. key_region d i = Inr (x0, y0, x0 + fst (d_key_size d), y0 + snd (d_key_size d))
           \<and> x0 = (i mod snd (d_key_layout d)) * (fst (d_key_size d) + fst KEY_SPACING)
           \<and> y0 = (i div snd (d_key_layout d)) * (snd (d_key_size d) + snd KEY_SPACING))
        \<and> (\<exists>key_image. crop_key_image_from_deck_sized_image d img i = Inr key_image))"
  by (simp add: key_region_def crop_key_image_from_deck_sized_image_def KEY_SPACING_def
      Let_def split: prod.splits)

theorem key_region_unchecked_witness:
  "snd (d_key_layout scenario_a) \<noteq> 0
   \<and> key_region scenario_a (-1) = Inr (324, -108, 396, -36)
   \<and> key_region scenario_a (-1) \<noteq> Inl IndexError"
  using key_region_unchecked [of scenario_a "-1"]
  by (simp add: key_region_def scenario_a_def KEY_SPACING_def)

text \<open>
  Index 8 is outside the grid of scenario A, which has keys 0 to 7; the computation
  returns a region below the panel and no error.
\<close>

theorem key_region_out_of_range_counterexample:
  "\<not> (0 \<le> (8::int) \<and> (8::int) < 2 * 4)
   \<and> d_key_layout scenario_a = (2, 4)
   \<and> key_region scenario_a 8 = Inr (0, 216, 72, 288)
   \<and> key_region scenario_a 8 \<noteq> Inl IndexError"
  by (simp add: key_region_def scenario_a_def KEY_SPACING_def)

subsection \<open>The concrete runs\<close>

lemma upt_2: "[0..<2] = [0, 1]"
  by (simp add: upt_rec)

lemmas run_defs =
  open_session_def close_session_def close_deck_def enter_def exit_session_def update_def
  update_body_def set_key_empty_def set_key_image_def render_key_def render_default_background_def
  render_all_keys_def render_all_keys_body_def set_key_callback_def deck_call_def transport_def
  hw_effect_def then_do_def image_from_svg_def color_image_def create_scaled_key_image_def
  create_key_image_def to_native_key_format_def path_join_def
  ACTIVE_COLOR_def NOT_ACTIVE_COLOR_def BACKGROUND_COLOR_def FOREGROUND_COLOR_def
  Let_def upt_2

lemmas demo_defs = demo_def demo_deck_def demo_files_def offline_def online_def gear_on_def

lemmas state_defs = demo_defs demo_opened_def demo_rendered_def demo_online_def demo_closed_def
  demo_gear_image_def demo_slice_def with_faults_def

lemma init_demo: "init demo_deck offline ''assets'' demo_files = Inr demo"
  by (simp add: init_def generate_key_images_from_deck_sized_image_def
      create_full_deck_sized_image_def full_deck_image_size_def KEY_SPACING_def
      crop_key_image_from_deck_sized_image_def key_region_def create_key_image_def
      to_native_key_format_def path_join_def BACKGROUND_IMAGE_def
      demo_deck_def demo_files_def demo_def demo_panel_def demo_slice_def upt_2 Let_def
      numeral_2_eq_2)

lemma open_demo: "open_session demo = (None, demo_opened)"
  by (simp add: run_defs demo_defs demo_opened_def)

lemma update_demo_online: "update (demo_opened\<lparr>config := online\<rparr>) = (None, demo_online)"
  by (simp add: run_defs state_defs)

lemma close_demo: "close_session demo_opened = (None, demo_closed)"
  by (simp add: run_defs state_defs)

lemma init_last_images:
  "init d cfg assets fs = Inr s \<Longrightarrow> length (last_images s) = d_key_count (deck s)"
  by (auto simp: init_def split: sum.splits)

subsection \<open>Device calls and the icon cache\<close>

lemma key_writes_append: "key_writes (xs @ ys) = key_writes xs @ key_writes ys"
  by (induction xs rule: key_writes.induct) simp_all

lemma deck_call_fields:
  assumes "deck_call op s = (r, s')"
  shows "last_images s' = last_images s" "icon_cache s' = icon_cache s"
    "config s' = config s" "default_background s' = default_background s"
    "assets_path s' = assets_path s" "files s' = files s" "icon_loads s' = icon_loads s"
    "d_trace (deck s') = d_trace (deck s) @ [op]"
    "d_faults (deck s') = tl (d_faults (deck s))"
    "d_key_count (deck s') = d_key_count (deck s)"
    "d_key_size (deck s') = d_key_size (deck s)"
    "d_key_layout (deck s') = d_key_layout (deck s)"
  using assms
  by (auto simp: deck_call_def transport_def hw_effect_def Let_def split: if_splits hw_op.splits prod.splits)

lemma deck_call_error:
  "deck_call op s = (Some e, s') \<Longrightarrow> e = TransportError"
  by (auto simp: deck_call_def transport_def Let_def split: if_splits prod.splits)

lemma deck_call_outcome:
  "deck_call op s = (r, s') \<Longrightarrow> r = (if next_call_fails s then Some TransportError else None)"
  by (auto simp: deck_call_def transport_def next_call_fails_def Let_def
      split: if_splits prod.splits)

lemma render_key_fields:
  assumes "render_key i l b s = (r, s')"
  shows "last_images s' = last_images s" "deck s' = deck s" "config s' = config s"
    "default_background s' = default_background s" "assets_path s' = assets_path s"
    "files s' = files s"
  using assms
  by (auto simp: render_key_def image_from_svg_def Let_def
      split: option.splits if_splits prod.splits sum.splits)

lemma render_key_error:
  "render_key i l b s = (Inl e, s') \<Longrightarrow> e = FileNotFoundError"
  by (auto simp: render_key_def image_from_svg_def Let_def
      split: option.splits if_splits prod.splits sum.splits)

lemma render_key_hit:
  "icon_cache s (i, l, b) = Some img \<Longrightarrow>
   render_key i l b s = (Inr (to_native_key_format (deck s) img), s)"
  by (simp add: render_key_def)

lemma render_key_caches:
  assumes "render_key i l b s = (Inr out, s1)"
  shows "\<exists>img. icon_cache s1 (i, l, b) = Some img \<and> out = to_native_key_format (deck s1) img"
  using assms
  by (auto simp: render_key_def image_from_svg_def Let_def to_native_key_format_def
      split: option.splits if_splits prod.splits sum.splits)

lemma render_key_cache_dom:
  assumes "render_key i l b s = (Inr out, s1)"
  shows "dom (icon_cache s1) = insert (i, l, b) (dom (icon_cache s))"
  using assms
  by (auto simp: render_key_def image_from_svg_def Let_def
      split: option.splits if_splits prod.splits sum.splits)

lemma render_key_loads:
  assumes "render_key i l b s = (r, s1)"
  shows "icon_loads s1 =
           icon_loads s @
             (if icon_cache s (i, l, b) = None \<and> i \<noteq> []
              then [path_join (assets_path s) (i @ ''.svg'')] else [])"
  using assms
  by (auto simp: render_key_def image_from_svg_def Let_def
      split: option.splits if_splits prod.splits sum.splits)

subsection \<open>The write suppressor\<close>

lemma set_key_empty_once:
  assumes "key < length (last_images s)"
  shows "writes_once key empty_tag (empty_image s) s (set_key_empty key s)"
proof (cases "last_images s ! key = (''empty_key'', None)")
  case True
  with assms show ?thesis
    by (simp add: writes_once_def set_key_empty_def empty_tag_def Let_def)
next
  case False
  obtain r s' where dc: "deck_call (HwSetKeyImage key (empty_image s)) s = (r, s')"
    by (cases "deck_call (HwSetKeyImage key (empty_image s)) s")
  note f = deck_call_fields[OF dc] and o = deck_call_outcome[OF dc]
  from assms False dc f o show ?thesis
    by (cases r)
       (simp_all add: writes_once_def set_key_empty_def empty_tag_def empty_image_def Let_def
          split: if_splits)
qed

lemma render_all_keys_body_once:
  assumes "key < length (last_images s)" and "key_images key = Some img"
  shows "writes_once key background_tag img s (render_all_keys_body key_images key s)"
proof (cases "last_images s ! key = (''render_all'', None)")
  case True
  with assms show ?thesis
    by (simp add: writes_once_def render_all_keys_body_def background_tag_def Let_def)
next
  case False
  obtain r s' where dc: "deck_call (HwSetKeyImage key img) s = (r, s')"
    by (cases "deck_call (HwSetKeyImage key img) s")
  note f = deck_call_fields[OF dc] and o = deck_call_outcome[OF dc]
  from assms False dc f o show ?thesis
    by (cases r)
       (simp_all add: writes_once_def render_all_keys_body_def background_tag_def Let_def
          split: if_splits)
qed

lemma set_key_image_once:
  assumes "key < length (last_images s)" and "render_button b s = (Inr img, s1)"
  shows "writes_once key (rendered_tag b) img s1 (set_key_image key b s)"
proof -
  note g = render_key_fields[OF assms(2)[unfolded render_button_def]]
  show ?thesis
  proof (cases "last_images s1 ! key = rendered_tag b")
    case True
    with assms g show ?thesis
      by (simp add: writes_once_def set_key_image_def rendered_tag_def render_button_def Let_def)
  next
    case False
    obtain r s' where dc: "deck_call (HwSetKeyImage key img) s1 = (r, s')"
      by (cases "deck_call (HwSetKeyImage key img) s1")
    note f = deck_call_fields[OF dc] and o = deck_call_outcome[OF dc]
    from assms False dc f o g show ?thesis
      by (cases r)
         (simp_all add: writes_once_def set_key_image_def rendered_tag_def render_button_def
            Let_def split: if_splits)
  qed
qed

lemma set_key_empty_twice:
  "fst (set_key_empty key s) = None \<Longrightarrow>
   set_key_empty key (snd (set_key_empty key s)) = (None, snd (set_key_empty key s))"
  by (auto simp: set_key_empty_def Let_def deck_call_fields split: prod.splits option.splits if_splits)

lemma render_all_keys_body_twice:
  "fst (render_all_keys_body key_images key s) = None \<Longrightarrow>
   render_all_keys_body key_images key (snd (render_all_keys_body key_images key s)) =
     (None, snd (render_all_keys_body key_images key s))"
  by (auto simp: render_all_keys_body_def Let_def deck_call_fields split: prod.splits option.splits if_splits)

lemma set_key_image_twice:
  assumes "fst (set_key_image key b s) = None"
  shows "set_key_image key b (snd (set_key_image key b s)) = (None, snd (set_key_image key b s))"
proof -
  let ?bg = "if selected b then ACTIVE_COLOR else NOT_ACTIVE_COLOR"
  obtain r s1 where rk: "render_key (icon b) (label b) ?bg s = (r, s1)"
    by (cases "render_key (icon b) (label b) ?bg s")
  with assms obtain img where r: "r = Inr img"
    by (cases r) (auto simp: set_key_image_def Let_def)
  from rk r obtain cached where c: "icon_cache s1 (icon b, label b, ?bg) = Some cached"
    and out: "img = to_native_key_format (deck s1) cached"
    using render_key_caches by blast
  show ?thesis
  proof (cases "last_images s1 ! key = (''render_key'', Some (icon b, label b, ?bg))")
    case True
    with assms rk r have "set_key_image key b s = (None, s1)"
      by (auto simp: set_key_image_def Let_def split: if_splits)
    moreover have "set_key_image key b s1 = (None, s1)"
      using assms rk r True c out
      by (auto simp: set_key_image_def Let_def render_key_hit split: if_splits)
    ultimately show ?thesis by simp
  next
    case False
    from assms rk r False obtain s2 where
      dc: "deck_call (HwSetKeyImage key img) s1 = (None, s2)" and len: "key < length (last_images s1)"
      and res: "set_key_image key b s =
        (None, s2\<lparr>last_images := (last_images s2)[key := (''render_key'', Some (icon b, label b, ?bg))]\<rparr>)"
      by (auto simp: set_key_image_def Let_def split: if_splits prod.splits option.splits)
    let ?s3 = "s2\<lparr>last_images := (last_images s2)[key := (''render_key'', Some (icon b, label b, ?bg))]\<rparr>"
    have "icon_cache ?s3 (icon b, label b, ?bg) = Some cached"
      using c deck_call_fields(2)[OF dc] by simp
    then have "render_key (icon b) (label b) ?bg ?s3 = (Inr (to_native_key_format (deck ?s3) cached), ?s3)"
      by (rule render_key_hit)
    moreover have "last_images ?s3 ! key = (''render_key'', Some (icon b, label b, ?bg))"
      using len deck_call_fields(1)[OF dc] by simp
    moreover have "key < length (last_images ?s3)"
      using len deck_call_fields(1)[OF dc] by simp
    ultimately have "set_key_image key b ?s3 = (None, ?s3)"
      by (simp add: set_key_image_def Let_def)
    with res show ?thesis by simp
  qed
qed

lemma writes_once_returns:
  assumes "writes_once key candidate img s r" and "key < length (last_images s)"
    and "last_images s ! key = candidate \<or> \<not> next_call_fails s"
  shows "fst r = None \<and> last_images (snd r) ! key = candidate
     \<and> d_trace (deck (snd r)) =
         d_trace (deck s) @
           (if last_images s ! key = candidate then [] else [HwSetKeyImage key img])"
  using assms by (auto simp: writes_once_def split: if_splits)

text \<open>
  C1.  For every key in range and every candidate tag, one pass through the write
  suppressor (in \<^verbatim>\<open>set_key_empty\<close>, in the loop of \<^verbatim>\<open>render_all_keys\<close>, in \<^verbatim>\<open>set_key_image\<close>
  once the image is rendered) does this: when the candidate equals the stored tag, no call
  reaches the device and the state is unchanged; when it differs, exactly one call is
  issued, the write of that key, and, unless the device makes that call raise, the pass
  returns with the candidate stored as the tag of that key.  Presenting the same candidate
  a second time then changes nothing, so that the two passes together issue exactly one
  write after a change of tag and none otherwise.
\<close>

theorem write_suppressor_once:
  assumes "key < length (last_images s)"
  shows "writes_once key empty_tag (empty_image s) s (set_key_empty key s)
     \<and> (key_images key = Some img \<longrightarrow>
          writes_once key background_tag img s (render_all_keys_body key_images key s))
     \<and> (render_button b s = (Inr img', s1) \<longrightarrow>
          writes_once key (rendered_tag b) img' s1 (set_key_image key b s))
     \<and> (last_images s ! key = empty_tag \<or> \<not> next_call_fails s \<longrightarrow>
          fst (set_key_empty key s) = None
          \<and> last_images (snd (set_key_empty key s)) ! key = empty_tag
          \<and> set_key_empty key (snd (set_key_empty key s)) = (None, snd (set_key_empty key s))
          \<and> d_trace (deck (snd (set_key_empty key (snd (set_key_empty key s))))) =
              d_trace (deck s) @
                (if last_images s ! key = empty_tag then []
                 else [HwSetKeyImage key (empty_image s)]))
     \<and> (key_images key = Some img \<and>
          (last_images s ! key = background_tag \<or> \<not> next_call_fails s) \<longrightarrow>
          fst (render_all_keys_body key_images key s) = None
          \<and> last_images (snd (render_all_keys_body key_images key s)) ! key = background_tag
          \<and> render_all_keys_body key_images key (snd (render_all_keys_body key_images key s)) =
              (None, snd (render_all_keys_body key_images key s))
          \<and> d_trace (deck (snd (render_all_keys_body key_images key
                (snd (render_all_keys_body key_images key s))))) =
              d_trace (deck s) @
                (if last_images s ! key = background_tag then [] else [HwSetKeyImage key img]))
     \<and> (render_button b s = (Inr img', s1) \<and>
          (last_images s ! key = rendered_tag b \<or> \<not> next_call_fails s) \<longrightarrow>
          fst (set_key_image key b s) = None
          \<and> last_images (snd (set_key_image key b s)) ! key = rendered_tag b
          \<and> set_key_image key b (snd (set_key_image key b s)) =
              (None, snd (set_key_image key b s))
          \<and> d_trace (deck (snd (set_key_image key b (snd (set_key_image key b s))))) =
              d_trace (deck s) @
                (if last_images s ! key = rendered_tag b then [] else [HwSetKeyImage key img']))"
proof -
  note e1 = set_key_empty_once[OF assms]
  have e2: "last_images s ! key = empty_tag \<or> \<not> next_call_fails s \<Longrightarrow>
      fst (set_key_empty key s) = None
      \<and> last_images (snd (set_key_empty key s)) ! key = empty_tag
      \<and> set_key_empty key (snd (set_key_empty key s)) = (None, snd (set_key_empty key s))
      \<and> d_trace (deck (snd (set_key_empty key (snd (set_key_empty key s))))) =
          d_trace (deck s) @
            (if last_images s ! key = empty_tag then []
             else [HwSetKeyImage key (empty_image s)])"
    using writes_once_returns[OF e1 assms] set_key_empty_twice[of key s] by simp
  have b1: "key_images key = Some img \<Longrightarrow>
      writes_once key background_tag img s (render_all_keys_body key_images key s)"
    by (rule render_all_keys_body_once[OF assms])
  have b2: "key_images key = Some img \<Longrightarrow>
      last_images s ! key = background_tag \<or> \<not> next_call_fails s \<Longrightarrow>
      fst (render_all_keys_body key_images key s) = None
      \<and> last_images (snd (render_all_keys_body key_images key s)) ! key = background_tag
      \<and> render_all_keys_body key_images key (snd (render_all_keys_body key_images key s)) =
          (None, snd (render_all_keys_body key_images key s))
      \<and> d_trace (deck (snd (render_all_keys_body key_images key
            (snd (render_all_keys_body key_images key s))))) =
          d_trace (deck s) @
            (if last_images s ! key = background_tag then [] else [HwSetKeyImage key img])"
    using writes_once_returns[OF b1 assms] render_all_keys_body_twice[of key_images key s]
    by simp
  have i1: "render_button b s = (Inr img', s1) \<Longrightarrow>
      writes_once key (rendered_tag b) img' s1 (set_key_image key b s)"
    by (rule set_key_image_once[OF assms])
  have i2: "fst (set_key_image key b s) = None
      \<and> last_images (snd (set_key_image key b s)) ! key = rendered_tag b
      \<and> set_key_image key b (snd (set_key_image key b s)) =
          (None, snd (set_key_image key b s))
      \<and> d_trace (deck (snd (set_key_image key b (snd (set_key_image key b s))))) =
          d_trace (deck s) @
            (if last_images s ! key = rendered_tag b then [] else [HwSetKeyImage key img'])"
    if r: "render_button b s = (Inr img', s1)"
      and a: "last_images s ! key = rendered_tag b \<or> \<not> next_call_fails s"
  proof -
    note g = render_key_fields[OF r[unfolded render_button_def]]
    have len: "key < length (last_images s1)" using assms g by simp
    have a1: "last_images s1 ! key = rendered_tag b \<or> \<not> next_call_fails s1"
      using a g by (simp add: next_call_fails_def)
    from writes_once_returns[OF i1[OF r] len a1] set_key_image_twice[of key b s] g
    show ?thesis by simp
  qed
  from e1 e2 b1 b2 i1 i2 show ?thesis by blast
qed

theorem write_suppressor_once_witness:
  "0 < length (last_images demo_opened)
   \<and> \<not> next_call_fails demo_opened
   \<and> default_background demo_opened 0 = Some (demo_slice 0)
   \<and> last_images demo_opened ! 0 = background_tag
   \<and> render_all_keys_body (default_background demo_opened) 0 demo_opened = (None, demo_opened)
   \<and> last_images demo_opened ! 0 \<noteq> empty_tag
   \<and> fst (set_key_empty 0 demo_opened) = None
   \<and> d_trace (deck (snd (set_key_empty 0 demo_opened))) =
       d_trace (deck demo_opened) @ [HwSetKeyImage 0 (empty_image demo_opened)]
   \<and> last_images (snd (set_key_empty 0 demo_opened)) = [empty_tag, background_tag]
   \<and> d_trace (deck (snd (set_key_empty 0 (snd (set_key_empty 0 demo_opened))))) =
       d_trace (deck demo_opened) @ [HwSetKeyImage 0 (empty_image demo_opened)]
   \<and> fst (render_button gear_on demo_opened) = Inr (Native (72, 72) demo_gear_image)
   \<and> last_images demo_opened ! 0 \<noteq> rendered_tag gear_on
   \<and> fst (set_key_image 0 gear_on demo_opened) = None
   \<and> d_trace (deck (snd (set_key_image 0 gear_on demo_opened))) =
       d_trace (deck demo_opened) @ [HwSetKeyImage 0 (Native (72, 72) demo_gear_image)]
   \<and> last_images (snd (set_key_image 0 gear_on demo_opened)) =
       [rendered_tag gear_on, background_tag]
   \<and> set_key_image 0 gear_on (snd (set_key_image 0 gear_on demo_opened)) =
       (None, snd (set_key_image 0 gear_on demo_opened))
   \<and> d_trace (deck (snd (set_key_image 0 gear_on (snd (set_key_image 0 gear_on demo_opened))))) =
       d_trace (deck demo_opened) @ [HwSetKeyImage 0 (Native (72, 72) demo_gear_image)]"
  using write_suppressor_once[of 0 demo_opened "default_background demo_opened" "demo_slice 0"
      gear_on "Native (72, 72) demo_gear_image" "snd (render_button gear_on demo_opened)"]
  by (simp add: run_defs state_defs render_button_def writes_once_def empty_image_def
      background_tag_def empty_tag_def rendered_tag_def next_call_fails_def)

subsection \<open>The icon cache\<close>

text \<open>
  C5.  \<^verbatim>\<open>render_key\<close> is idempotent under one cache key: a second call with the same icon,
  label and background returns the same image and leaves the state as it is, so the
  loader is not called again, even when the files have changed meanwhile; the cache holds
  the image under that key, and the first call added no other key.
\<close>

theorem render_key_idempotent:
  assumes "render_key i l b s = (Inr out, s1)"
  shows "render_key i l b s1 = (Inr out, s1)
     \<and> render_key i l b (s1\<lparr>files := fs\<rparr>) = (Inr out, s1\<lparr>files := fs\<rparr>)
     \<and> (\<exists>img. icon_cache s1 (i, l, b) = Some img \<and> out = to_native_key_format (deck s1) img)
     \<and> dom (icon_cache s1) = insert (i, l, b) (dom (icon_cache s))
     \<and> icon_loads s1 =
          icon_loads s @
            (if icon_cache s (i, l, b) = None \<and> i \<noteq> []
             then [path_join (assets_path s) (i @ ''.svg'')] else [])"
proof -
  from render_key_caches[OF assms] obtain img where
    c: "icon_cache s1 (i, l, b) = Some img" and out: "out = to_native_key_format (deck s1) img"
    by blast
  have "render_key i l b s1 = (Inr out, s1)"
    using render_key_hit[OF c] out by simp
  moreover have "render_key i l b (s1\<lparr>files := fs\<rparr>) = (Inr out, s1\<lparr>files := fs\<rparr>)"
    using render_key_hit[of "s1\<lparr>files := fs\<rparr>" i l b img] c out by simp
  ultimately show ?thesis
    using c out render_key_cache_dom[OF assms] render_key_loads[OF assms] by blast
qed

theorem render_key_idempotent_witness:
  "render_key ''gear'' ''On'' ACTIVE_COLOR demo = (Inr (Native (72, 72) demo_gear_image), demo_rendered)
   \<and> render_key ''gear'' ''On'' ACTIVE_COLOR demo_rendered =
       (Inr (Native (72, 72) demo_gear_image), demo_rendered)
   \<and> render_key ''gear'' ''On'' ACTIVE_COLOR (demo_rendered\<lparr>files := Map.empty\<rparr>) =
       (Inr (Native (72, 72) demo_gear_image), demo_rendered\<lparr>files := Map.empty\<rparr>)
   \<and> icon_cache demo (''gear'', ''On'', ACTIVE_COLOR) = None
   \<and> icon_cache demo_rendered (''gear'', ''On'', ACTIVE_COLOR) = Some demo_gear_image
   \<and> dom (icon_cache demo_rendered) = {(''gear'', ''On'', ACTIVE_COLOR)}
   \<and> icon_loads demo = []
   \<and> icon_loads demo_rendered = [''assets/gear.svg'']
   \<and> icon_loads (snd (render_key ''gear'' ''On'' ACTIVE_COLOR demo_rendered)) = [''assets/gear.svg'']"
proof -
  have h: "render_key ''gear'' ''On'' ACTIVE_COLOR demo =
      (Inr (Native (72, 72) demo_gear_image), demo_rendered)"
    by (simp add: run_defs state_defs)
  from render_key_idempotent[OF h, of Map.empty] h show ?thesis
    by (simp add: state_defs ACTIVE_COLOR_def BACKGROUND_COLOR_def path_join_def)
qed

subsection \<open>A failed write\<close>

lemma set_key_empty_fault:
  assumes "set_key_empty key s = (Some TransportError, s')"
  shows "last_images s' = last_images s
     \<and> d_trace (deck (snd (set_key_empty key s'))) =
         d_trace (deck s') @ [HwSetKeyImage key (empty_image s')]"
  using assms
  by (auto simp: set_key_empty_def empty_image_def Let_def deck_call_fields
      split: if_splits prod.splits option.splits)

lemma render_all_keys_body_fault:
  assumes "render_all_keys_body key_images key s = (Some TransportError, s')"
  shows "last_images s' = last_images s
     \<and> (\<exists>img. key_images key = Some img \<and>
          d_trace (deck (snd (render_all_keys_body key_images key s'))) =
            d_trace (deck s') @ [HwSetKeyImage key img])"
  using assms
  by (auto simp: render_all_keys_body_def Let_def deck_call_fields
      split: if_splits prod.splits option.splits)

lemma set_key_image_fault:
  assumes "set_key_image key b s = (Some TransportError, s')"
  shows "last_images s' = last_images s
     \<and> (\<exists>img. d_trace (deck (snd (set_key_image key b s'))) =
            d_trace (deck s') @ [HwSetKeyImage key img])"
proof -
  let ?bg = "if selected b then ACTIVE_COLOR else NOT_ACTIVE_COLOR"
  let ?tag = "(''render_key'', Some (icon b, label b, ?bg))"
  obtain r s1 where rk: "render_key (icon b) (label b) ?bg s = (r, s1)"
    by (cases "render_key (icon b) (label b) ?bg s")
  have "\<exists>img. r = Inr img"
  proof (cases r)
    case (Inl e)
    with rk render_key_error have "e = FileNotFoundError" by blast
    with assms rk Inl show ?thesis by (simp add: set_key_image_def Let_def)
  qed simp
  then obtain img where r: "r = Inr img" by blast
  from rk r obtain cached where c: "icon_cache s1 (icon b, label b, ?bg) = Some cached"
    and out: "img = to_native_key_format (deck s1) cached"
    using render_key_caches by blast
  from assms rk r have len: "key < length (last_images s1)" and diff: "last_images s1 ! key \<noteq> ?tag"
    and dc: "deck_call (HwSetKeyImage key img) s1 = (Some TransportError, s')"
    by (auto simp: set_key_image_def Let_def split: if_splits prod.splits option.splits)
  have li: "last_images s' = last_images s"
    using deck_call_fields(1)[OF dc] render_key_fields(1)[OF rk] by simp
  have c': "icon_cache s' (icon b, label b, ?bg) = Some cached"
    using c deck_call_fields(2)[OF dc] by simp
  have sz: "to_native_key_format (deck s') cached = img"
    using out deck_call_fields(11)[OF dc] by (simp add: to_native_key_format_def)
  have "render_key (icon b) (label b) ?bg s' = (Inr img, s')"
    using render_key_hit[OF c'] sz by simp
  moreover obtain r2 s2 where dc2: "deck_call (HwSetKeyImage key img) s' = (r2, s2)"
    by (cases "deck_call (HwSetKeyImage key img) s'")
  ultimately have "d_trace (deck (snd (set_key_image key b s'))) = d_trace (deck s2)"
    using len diff deck_call_fields(1)[OF dc]
    by (cases r2) (auto simp: set_key_image_def Let_def)
  with deck_call_fields(8)[OF dc2] li show ?thesis by auto
qed

text \<open>
  C7.  When the write of a key fails with \<^verbatim>\<open>TransportError\<close>, the stored tags are what they
  were before the call, and presenting the same candidate again issues the write of that
  key again.
\<close>

theorem failed_write_keeps_tag:
  "(set_key_image key b s = (Some TransportError, s') \<longrightarrow>
      last_images s' = last_images s
      \<and> (\<exists>img. d_trace (deck (snd (set_key_image key b s'))) =
             d_trace (deck s') @ [HwSetKeyImage key img]))
   \<and> (set_key_empty key s = (Some TransportError, s') \<longrightarrow>
      last_images s' = last_images s
      \<and> d_trace (deck (snd (set_key_empty key s'))) =
          d_trace (deck s') @ [HwSetKeyImage key (empty_image s')])
   \<and> (render_all_keys_body key_images key s = (Some TransportError, s') \<longrightarrow>
      last_images s' = last_images s
      \<and> (\<exists>img. key_images key = Some img \<and>
           d_trace (deck (snd (render_all_keys_body key_images key s'))) =
             d_trace (deck s') @ [HwSetKeyImage key img]))"
  using set_key_image_fault set_key_empty_fault render_all_keys_body_fault by blast

theorem failed_write_keeps_tag_witness:
  "set_key_empty 0 (with_faults [True] demo_opened) =
     (Some TransportError, snd (set_key_empty 0 (with_faults [True] demo_opened)))
   \<and> last_images (snd (set_key_empty 0 (with_faults [True] demo_opened))) =
       last_images demo_opened
   \<and> d_trace (deck (snd (set_key_empty 0 (snd (set_key_empty 0 (with_faults [True] demo_opened)))))) =
       d_trace (deck demo_opened) @
         [HwSetKeyImage 0 (empty_image demo_opened), HwSetKeyImage 0 (empty_image demo_opened)]
   \<and> set_key_image 0 gear_on (with_faults [True] demo_opened) =
     (Some TransportError, snd (set_key_image 0 gear_on (with_faults [True] demo_opened)))
   \<and> last_images (snd (set_key_image 0 gear_on (with_faults [True] demo_opened))) =
       last_images demo_opened
   \<and> d_trace (deck (snd (set_key_image 0 gear_on
         (snd (set_key_image 0 gear_on (with_faults [True] demo_opened)))))) =
       d_trace (deck demo_opened) @
         [HwSetKeyImage 0 (Native (72, 72) demo_gear_image),
          HwSetKeyImage 0 (Native (72, 72) demo_gear_image)]
   \<and> render_all_keys_body (default_background demo) 0 (with_faults [True] demo) =
     (Some TransportError, snd (render_all_keys_body (default_background demo) 0 (with_faults [True] demo)))
   \<and> last_images (snd (render_all_keys_body (default_background demo) 0 (with_faults [True] demo))) =
       last_images demo"
  using failed_write_keeps_tag[of 0 gear_on "with_faults [True] demo_opened"
      "snd (set_key_empty 0 (with_faults [True] demo_opened))" "default_background demo"]
    failed_write_keeps_tag[of 0 gear_on "with_faults [True] demo_opened"
      "snd (set_key_image 0 gear_on (with_faults [True] demo_opened))" "default_background demo"]
    failed_write_keeps_tag[of 0 gear_on "with_faults [True] demo"
      "snd (render_all_keys_body (default_background demo) 0 (with_faults [True] demo))"
      "default_background demo"]
  by (simp add: run_defs state_defs empty_image_def)

subsection \<open>The background\<close>

lemma for_each_invariant:
  assumes "P s"
    and "\<And>k s r s'. k \<in> set ks \<Longrightarrow> P s \<Longrightarrow> body k s = (r, s') \<Longrightarrow> P s'"
  shows "P (snd (for_each ks body s))"
  using assms
proof (induction ks arbitrary: s)
  case Nil
  then show ?case by simp
next
  case (Cons k ks)
  obtain r s' where b: "body k s = (r, s')" by (cases "body k s")
  have P': "P s'" using Cons.prems(2)[of k s r s'] Cons.prems(1) b by simp
  show ?case
  proof (cases r)
    case None
    have "P (snd (for_each ks body s'))"
      by (rule Cons.IH[OF P']) (use Cons.prems(2) in auto)
    with b None show ?thesis by simp
  next
    case (Some e)
    with b P' show ?thesis by simp
  qed
qed

lemma render_all_keys_body_frame:
  assumes "render_all_keys_body key_images k s = (r, s')"
  shows "length (last_images s') = length (last_images s)"
    and "d_key_count (deck s') = d_key_count (deck s)"
    and "last_images s ! j = (''render_all'', None) \<Longrightarrow> last_images s' ! j = (''render_all'', None)"
    and "r = None \<Longrightarrow> k < length (last_images s') \<and> last_images s' ! k = (''render_all'', None)"
    and "config s' = config s" and "default_background s' = default_background s"
  using assms
  by (auto simp: render_all_keys_body_def Let_def deck_call_fields nth_list_update
      split: option.splits if_splits prod.splits)

lemma render_all_loop_tags:
  "for_each ks (render_all_keys_body key_images) s = (None, s') \<Longrightarrow> k \<in> set ks \<Longrightarrow>
   k < length (last_images s') \<and> last_images s' ! k = (''render_all'', None)"
proof (induction ks arbitrary: s)
  case Nil
  then show ?case by simp
next
  case (Cons a ks)
  obtain r s1 where b: "render_all_keys_body key_images a s = (r, s1)"
    by (cases "render_all_keys_body key_images a s")
  with Cons.prems(1) have r: "r = None" and rest: "for_each ks (render_all_keys_body key_images) s1 = (None, s')"
    by (auto split: option.splits)
  show ?case
  proof (cases "k \<in> set ks")
    case True
    then show ?thesis using Cons.IH[OF rest] by simp
  next
    case False
    with Cons.prems(2) have ka: "k = a" by simp
    have a1: "a < length (last_images s1) \<and> last_images s1 ! a = (''render_all'', None)"
      using render_all_keys_body_frame(4)[OF b r] .
    have "length (last_images (snd (for_each ks (render_all_keys_body key_images) s1))) = length (last_images s1)
        \<and> last_images (snd (for_each ks (render_all_keys_body key_images) s1)) ! a = (''render_all'', None)"
      by (rule for_each_invariant[where P = "\<lambda>t. length (last_images t) = length (last_images s1)
            \<and> last_images t ! a = (''render_all'', None)"])
         (use a1 render_all_keys_body_frame in auto)
    with rest a1 ka show ?thesis by simp
  qed
qed

lemma render_all_loop_key_count:
  "d_key_count (deck (snd (for_each ks (render_all_keys_body key_images) s))) = d_key_count (deck s)"
  by (rule for_each_invariant[where P = "\<lambda>t. d_key_count (deck t) = d_key_count (deck s)"])
     (use render_all_keys_body_frame in auto)

lemma render_all_loop_idle:
  "\<forall>k \<in> set ks. k < length (last_images s) \<and> last_images s ! k = (''render_all'', None) \<Longrightarrow>
   snd (for_each ks (render_all_keys_body key_images) s) = s
   \<and> (fst (for_each ks (render_all_keys_body key_images) s) = None
      \<or> fst (for_each ks (render_all_keys_body key_images) s) = Some KeyError)
   \<and> ((\<forall>k \<in> set ks. key_images k \<noteq> None) \<longrightarrow>
        fst (for_each ks (render_all_keys_body key_images) s) = None)"
proof (induction ks)
  case Nil
  then show ?case by simp
next
  case (Cons a ks)
  then have "render_all_keys_body key_images a s = (None, s)
     \<or> (key_images a = None \<and> render_all_keys_body key_images a s = (Some KeyError, s))"
    by (auto simp: render_all_keys_body_def split: option.splits)
  with Cons show ?case by auto
qed

text \<open>
  C10.  \<^verbatim>\<open>render_all_keys\<close> tags every key with one constant tag, whatever the images
  are.  So right after it has returned, rendering all keys from any other dictionary of
  images issues no call to the device and leaves the state, the stored tags with it,
  unchanged (a dictionary that lacks a key raises \<^verbatim>\<open>KeyError\<close>, still without a write).
\<close>

theorem background_tag_constant:
  assumes "render_all_keys key_images s = (None, s1)"
  shows "(\<forall>k < d_key_count (deck s). last_images s1 ! k = background_tag)
     \<and> snd (render_all_keys other_images s1) = s1
     \<and> d_trace (deck (snd (render_all_keys other_images s1))) = d_trace (deck s1)
     \<and> last_images (snd (render_all_keys other_images s1)) = last_images s1
     \<and> (fst (render_all_keys other_images s1) = None \<or> fst (render_all_keys other_images s1) = Some KeyError)
     \<and> ((\<forall>k < d_key_count (deck s). other_images k \<noteq> None) \<longrightarrow>
          render_all_keys other_images s1 = (None, s1))"
proof -
  let ?n = "d_key_count (deck s)"
  from assms have loop: "for_each [0..<?n] (render_all_keys_body key_images) s = (None, s1)"
    by (simp add: render_all_keys_def)
  have tags: "\<forall>k \<in> set [0..<?n]. k < length (last_images s1) \<and> last_images s1 ! k = (''render_all'', None)"
    using render_all_loop_tags[OF loop] by blast
  have n1: "d_key_count (deck s1) = ?n"
    using render_all_loop_key_count[of "[0..<?n]" key_images s] loop by simp
  have idle: "snd (for_each [0..<?n] (render_all_keys_body other_images) s1) = s1
     \<and> (fst (for_each [0..<?n] (render_all_keys_body other_images) s1) = None
        \<or> fst (for_each [0..<?n] (render_all_keys_body other_images) s1) = Some KeyError)
     \<and> ((\<forall>k \<in> set [0..<?n]. other_images k \<noteq> None) \<longrightarrow>
          fst (for_each [0..<?n] (render_all_keys_body other_images) s1) = None)"
    by (rule render_all_loop_idle[OF tags])
  have r: "render_all_keys other_images s1 = for_each [0..<?n] (render_all_keys_body other_images) s1"
    by (simp add: render_all_keys_def n1)
  from tags have "\<forall>k < ?n. last_images s1 ! k = background_tag"
    by (simp add: background_tag_def)
  moreover have "(\<forall>k < ?n. other_images k \<noteq> None) \<longrightarrow> render_all_keys other_images s1 = (None, s1)"
    using idle r by (auto simp: prod_eq_iff)
  ultimately show ?thesis using idle r by simp
qed

theorem background_tag_constant_witness:
  "render_all_keys (default_background demo_online) demo_online =
     (None, snd (render_all_keys (default_background demo_online) demo_online))
   \<and> last_images demo_online = [rendered_tag gear_on, empty_tag]
   \<and> last_images (snd (render_all_keys (default_background demo_online) demo_online)) =
       [background_tag, background_tag]
   \<and> key_writes (d_trace (deck (snd (render_all_keys (default_background demo_online) demo_online)))) =
       key_writes (d_trace (deck demo_online)) @ [(0, demo_slice 0), (1, demo_slice 108)]
   \<and> render_all_keys [0 \<mapsto> demo_slice 108, 1 \<mapsto> demo_slice 0]
        (snd (render_all_keys (default_background demo_online) demo_online)) =
       (None, snd (render_all_keys (default_background demo_online) demo_online))
   \<and> snd (render_all_keys Map.empty
        (snd (render_all_keys (default_background demo_online) demo_online))) =
       snd (render_all_keys (default_background demo_online) demo_online)"
  using background_tag_constant[of "default_background demo_online" demo_online
      "snd (render_all_keys (default_background demo_online) demo_online)"
      "[0 \<mapsto> demo_slice 108, 1 \<mapsto> demo_slice 0]"]
    background_tag_constant[of "default_background demo_online" demo_online
      "snd (render_all_keys (default_background demo_online) demo_online)" Map.empty]
  by (simp add: run_defs state_defs background_tag_def rendered_tag_def empty_tag_def)

lemma for_each_commute:
  assumes "\<And>k s. body k (f s) = (fst (body k s), f (snd (body k s)))"
  shows "for_each ks body (f s) = (fst (for_each ks body s), f (snd (for_each ks body s)))"
proof (induction ks arbitrary: s)
  case Nil
  then show ?case by simp
next
  case (Cons k ks)
  obtain r s' where b: "body k s = (r, s')" by (cases "body k s")
  with assms[of k s] have bf: "body k (f s) = (r, f s')" by simp
  show ?case using b bf Cons.IH[of s'] by (cases r) simp_all
qed

lemma render_all_keys_body_config:
  "render_all_keys_body key_images k (s\<lparr>config := c\<rparr>) =
     (fst (render_all_keys_body key_images k s),
      (snd (render_all_keys_body key_images k s))\<lparr>config := c\<rparr>)"
  by (auto simp: render_all_keys_body_def deck_call_def Let_def split: option.splits prod.splits)

lemma render_default_background_config:
  "render_default_background (s\<lparr>config := c\<rparr>) =
     (fst (render_default_background s), (snd (render_default_background s))\<lparr>config := c\<rparr>)"
  unfolding render_default_background_def render_all_keys_def
  using for_each_commute[of "render_all_keys_body (default_background s)" "\<lambda>t. t\<lparr>config := c\<rparr>"
      "[0..<d_key_count (deck s)]" s, OF render_all_keys_body_config]
  by simp

text \<open>
  C4.  With \<^verbatim>\<open>remote_connected\<close> false, an update never reads the buttons: for two
  configurations that both report it false, the update returns the same outcome, makes
  the same calls to the device and stores the same tags, the resulting states differing
  in the configuration only; and when it returns, every key carries the background tag.
\<close>

theorem disconnected_ignores_buttons:
  assumes "\<not> remote_connected c1" and "\<not> remote_connected c2"
  shows "fst (update (s\<lparr>config := c1\<rparr>)) = fst (update (s\<lparr>config := c2\<rparr>))
     \<and> snd (update (s\<lparr>config := c2\<rparr>)) = (snd (update (s\<lparr>config := c1\<rparr>)))\<lparr>config := c2\<rparr>
     \<and> d_trace (deck (snd (update (s\<lparr>config := c1\<rparr>)))) =
         d_trace (deck (snd (update (s\<lparr>config := c2\<rparr>))))
     \<and> last_images (snd (update (s\<lparr>config := c1\<rparr>))) =
         last_images (snd (update (s\<lparr>config := c2\<rparr>)))
     \<and> (fst (update (s\<lparr>config := c1\<rparr>)) = None \<longrightarrow>
          (\<forall>k < d_key_count (deck s).
             last_images (snd (update (s\<lparr>config := c1\<rparr>))) ! k = background_tag))"
proof -
  have u1: "update (s\<lparr>config := c1\<rparr>) =
      (fst (render_default_background s), (snd (render_default_background s))\<lparr>config := c1\<rparr>)"
    using assms(1) by (simp add: update_def render_default_background_config)
  have u2: "update (s\<lparr>config := c2\<rparr>) =
      (fst (render_default_background s), (snd (render_default_background s))\<lparr>config := c2\<rparr>)"
    using assms(2) by (simp add: update_def render_default_background_config)
  have tags: "fst (render_default_background s) = None \<longrightarrow>
      (\<forall>k < d_key_count (deck s). last_images (snd (render_default_background s)) ! k = background_tag)"
  proof
    assume "fst (render_default_background s) = None"
    then have "for_each [0..<d_key_count (deck s)] (render_all_keys_body (default_background s)) s =
        (None, snd (render_default_background s))"
      by (simp add: render_default_background_def render_all_keys_def prod_eq_iff)
    from render_all_loop_tags[OF this]
    show "\<forall>k < d_key_count (deck s). last_images (snd (render_default_background s)) ! k = background_tag"
      by (simp add: background_tag_def)
  qed
  show ?thesis using u1 u2 tags by simp
qed

theorem disconnected_ignores_buttons_witness:
  "\<not> remote_connected offline
   \<and> \<not> remote_connected (offline\<lparr>buttons := []\<rparr>)
   \<and> buttons offline \<noteq> buttons (offline\<lparr>buttons := []\<rparr>)
   \<and> fst (update (demo_online\<lparr>config := offline\<rparr>)) = None
   \<and> fst (update (demo_online\<lparr>config := offline\<lparr>buttons := []\<rparr>\<rparr>)) = None
   \<and> last_images (snd (update (demo_online\<lparr>config := offline\<rparr>))) =
       [background_tag, background_tag]
   \<and> last_images (snd (update (demo_online\<lparr>config := offline\<lparr>buttons := []\<rparr>\<rparr>))) =
       [background_tag, background_tag]
   \<and> d_trace (deck (snd (update (demo_online\<lparr>config := offline\<rparr>)))) =
       d_trace (deck demo_online) @ [HwSetKeyImage 0 (demo_slice 0), HwSetKeyImage 1 (demo_slice 108)]
   \<and> d_trace (deck (snd (update (demo_online\<lparr>config := offline\<lparr>buttons := []\<rparr>\<rparr>)))) =
       d_trace (deck demo_online) @ [HwSetKeyImage 0 (demo_slice 0), HwSetKeyImage 1 (demo_slice 108)]"
  using disconnected_ignores_buttons[of offline "offline\<lparr>buttons := []\<rparr>" demo_online]
  by (simp add: run_defs state_defs background_tag_def)

subsection \<open>The update cycle\<close>

lemma set_key_empty_frame:
  assumes "set_key_empty key s = (r, s')"
  shows "length (last_images s') = length (last_images s)"
    and "d_key_count (deck s') = d_key_count (deck s)"
    and "config s' = config s" and "files s' = files s" and "assets_path s' = assets_path s"
    and "j \<noteq> key \<Longrightarrow> last_images s' ! j = last_images s ! j"
    and "r \<noteq> Some KeyError"
    and "key < length (last_images s) \<Longrightarrow> r \<noteq> Some IndexError"
    and "r = None \<Longrightarrow> key < length (last_images s) \<and> last_images s' ! key = (''empty_key'', None)"
    and "d_faults (deck s) = [] \<Longrightarrow> d_faults (deck s') = [] \<and> (key < length (last_images s) \<longrightarrow> r = None)"
  using assms
  by (auto simp: set_key_empty_def Let_def deck_call_def transport_def hw_effect_def
      split: if_splits prod.splits option.splits)

lemma set_key_image_outcome:
  assumes "set_key_image key b s = (r, s')"
  shows "\<exists>q s1. render_button b s = (q, s1) \<and>
     (case q of
        Inl e \<Rightarrow> r = Some FileNotFoundError \<and> s' = s1
      | Inr img \<Rightarrow>
          if length (last_images s1) \<le> key then r = Some IndexError \<and> s' = s1
          else if last_images s1 ! key = rendered_tag b then r = None \<and> s' = s1
          else \<exists>s2. deck_call (HwSetKeyImage key img) s1 = (r, s2) \<and>
                 (r = None \<or> r = Some TransportError) \<and>
                 s' = (if r = None then s2\<lparr>last_images := (last_images s2)[key := rendered_tag b]\<rparr>
                       else s2))"
proof -
  obtain q s1 where rk: "render_button b s = (q, s1)" by (cases "render_button b s")
  show ?thesis
  proof (cases q)
    case (Inl e)
    with rk have "e = FileNotFoundError"
      using render_key_error[of "icon b" "label b" _ s e s1] by (simp add: render_button_def)
    with assms rk Inl show ?thesis
      by (simp add: set_key_image_def render_button_def Let_def)
  next
    case (Inr img)
    obtain r2 s2 where dc: "deck_call (HwSetKeyImage key img) s1 = (r2, s2)"
      by (cases "deck_call (HwSetKeyImage key img) s1")
    have "r2 = None \<or> r2 = Some TransportError"
      using dc deck_call_error by (cases r2) auto
    with assms rk Inr dc show ?thesis
      by (auto simp: set_key_image_def render_button_def rendered_tag_def Let_def
          split: if_splits)
  qed
qed

lemma set_key_image_frame:
  assumes "set_key_image key b s = (r, s')"
  shows "length (last_images s') = length (last_images s)
    \<and> d_key_count (deck s') = d_key_count (deck s)
    \<and> config s' = config s \<and> files s' = files s \<and> assets_path s' = assets_path s
    \<and> (j \<noteq> key \<longrightarrow> last_images s' ! j = last_images s ! j)
    \<and> r \<noteq> Some KeyError
    \<and> (key < length (last_images s) \<longrightarrow> r \<noteq> Some IndexError)
    \<and> (r = None \<longrightarrow> key < length (last_images s) \<and> last_images s' ! key = rendered_tag b)"
proof -
  from set_key_image_outcome[OF assms] obtain q s1 where
    rk: "render_button b s = (q, s1)" and
    oc: "case q of
        Inl e \<Rightarrow> r = Some FileNotFoundError \<and> s' = s1
      | Inr img \<Rightarrow>
          if length (last_images s1) \<le> key then r = Some IndexError \<and> s' = s1
          else if last_images s1 ! key = rendered_tag b then r = None \<and> s' = s1
          else \<exists>s2. deck_call (HwSetKeyImage key img) s1 = (r, s2) \<and>
                 (r = None \<or> r = Some TransportError) \<and>
                 s' = (if r = None then s2\<lparr>last_images := (last_images s2)[key := rendered_tag b]\<rparr>
                       else s2)"
    by blast
  note f1 = render_key_fields[OF rk[unfolded render_button_def]]
  show ?thesis
  proof (cases q)
    case (Inl e)
    with oc f1 show ?thesis by simp
  next
    case (Inr img)
    show ?thesis
    proof (cases "length (last_images s1) \<le> key \<or> last_images s1 ! key = rendered_tag b")
      case True
      with oc Inr f1 show ?thesis by (auto split: if_splits)
    next
      case False
      with oc Inr obtain s2 where dc: "deck_call (HwSetKeyImage key img) s1 = (r, s2)"
        and rr: "r = None \<or> r = Some TransportError"
        and s': "s' = (if r = None then s2\<lparr>last_images := (last_images s2)[key := rendered_tag b]\<rparr>
                       else s2)"
        by auto
      note f2 = deck_call_fields[OF dc]
      from rr show ?thesis
      proof
        assume "r = None"
        with s' f1 f2 False show ?thesis by simp
      next
        assume "r = Some TransportError"
        with s' f1 f2 False show ?thesis by simp
      qed
    qed
  qed
qed

lemma set_key_image_total:
  assumes "set_key_image key b s = (r, s')" and "d_faults (deck s) = []"
    and "icon b = [] \<or> files s (path_join (assets_path s) (icon b @ ''.svg'')) \<noteq> None"
    and "key < length (last_images s)"
  shows "d_faults (deck s') = [] \<and> r = None"
proof -
  let ?bg = "if selected b then ACTIVE_COLOR else NOT_ACTIVE_COLOR"
  obtain q s1 where rk: "render_key (icon b) (label b) ?bg s = (q, s1)"
    by (cases "render_key (icon b) (label b) ?bg s")
  have "\<exists>img. q = Inr img"
    using rk assms(3)
    by (auto simp: render_key_def image_from_svg_def Let_def
        split: option.splits if_splits prod.splits sum.splits)
  then obtain img where q: "q = Inr img" by blast
  have f1: "d_faults (deck s1) = []" and l1: "last_images s1 = last_images s"
    using render_key_fields[OF rk] assms(2) by simp_all
  show ?thesis
    using assms(1,4) rk q f1 l1
    by (auto simp: set_key_image_def Let_def deck_call_def transport_def hw_effect_def
        split: if_splits prod.splits option.splits)
qed

lemma update_body_cases:
  "update_body key s =
     (if length (buttons (config s)) \<le> key then set_key_empty key s
      else case buttons (config s) ! key of
             None \<Rightarrow> set_key_empty key s
           | Some b \<Rightarrow> set_key_image key b s)"
  by (simp add: update_body_def)

lemma update_body_frame:
  assumes "update_body key s = (r, s')"
  shows "length (last_images s') = length (last_images s)
     \<and> d_key_count (deck s') = d_key_count (deck s)
     \<and> config s' = config s \<and> files s' = files s \<and> assets_path s' = assets_path s
     \<and> (j \<noteq> key \<longrightarrow> last_images s' ! j = last_images s ! j)
     \<and> r \<noteq> Some KeyError
     \<and> (key < length (last_images s) \<longrightarrow> r \<noteq> Some IndexError)
     \<and> (r = None \<longrightarrow> length (buttons (config s)) \<le> key \<longrightarrow>
           last_images s' ! key = (''empty_key'', None))"
proof (cases "length (buttons (config s)) \<le> key \<or> buttons (config s) ! key = None")
  case True
  with assms have "set_key_empty key s = (r, s')"
    by (auto simp: update_body_cases split: if_splits)
  from set_key_empty_frame[OF this] show ?thesis by simp
next
  case False
  then obtain b where b: "buttons (config s) ! key = Some b" and n: "\<not> length (buttons (config s)) \<le> key"
    by auto
  with assms have e: "set_key_image key b s = (r, s')"
    by (simp add: update_body_cases)
  from set_key_image_frame[OF e] n show ?thesis by simp
qed

lemma update_loop_errors:
  "\<forall>k \<in> set ks. k < length (last_images s) \<Longrightarrow>
   fst (for_each ks update_body s) \<noteq> Some IndexError
   \<and> fst (for_each ks update_body s) \<noteq> Some KeyError"
proof (induction ks arbitrary: s)
  case Nil
  then show ?case by simp
next
  case (Cons a ks)
  obtain r s1 where b: "update_body a s = (r, s1)" by (cases "update_body a s")
  note f = update_body_frame[OF b]
  show ?case
  proof (cases r)
    case None
    have "\<forall>k \<in> set ks. k < length (last_images s1)" using f Cons.prems by simp
    from Cons.IH[OF this] b None show ?thesis by simp
  next
    case (Some e)
    with b f Cons.prems show ?thesis by auto
  qed
qed

lemma update_loop_empty_slots:
  "for_each ks update_body s = (None, s') \<Longrightarrow> distinct ks \<Longrightarrow> k \<in> set ks \<Longrightarrow>
   length (buttons (config s)) \<le> k \<Longrightarrow> last_images s' ! k = (''empty_key'', None)"
proof (induction ks arbitrary: s)
  case Nil
  then show ?case by simp
next
  case (Cons a ks)
  obtain r s1 where b: "update_body a s = (r, s1)" by (cases "update_body a s")
  with Cons.prems(1) have r: "r = None" and rest: "for_each ks update_body s1 = (None, s')"
    by (auto split: option.splits)
  note f = update_body_frame[OF b]
  show ?case
  proof (cases "k \<in> set ks")
    case True
    with Cons.IH[OF rest] Cons.prems f show ?thesis by simp
  next
    case False
    with Cons.prems have ka: "k = a" and na: "a \<notin> set ks" by auto
    have a1: "last_images s1 ! a = (''empty_key'', None)"
      using f r Cons.prems(4) ka by simp
    have "last_images (snd (for_each ks update_body s1)) ! a = (''empty_key'', None)"
    proof (rule for_each_invariant[where P = "\<lambda>t. last_images t ! a = (''empty_key'', None)"])
      show "last_images s1 ! a = (''empty_key'', None)" by (rule a1)
    next
      fix j t q t'
      assume "j \<in> set ks" and p: "last_images t ! a = (''empty_key'', None)"
        and u: "update_body j t = (q, t')"
      with na have "a \<noteq> j" by auto
      with update_body_frame[OF u, of a] p show "last_images t' ! a = (''empty_key'', None)"
        by simp
    qed
    with rest ka show ?thesis by simp
  qed
qed

lemma update_body_total:
  assumes "update_body key s = (r, s')" and "d_faults (deck s) = []"
    and "key < length (last_images s)"
    and "\<forall>b. Some b \<in> set (buttons (config s)) \<longrightarrow>
           icon b = [] \<or> files s (path_join (assets_path s) (icon b @ ''.svg'')) \<noteq> None"
  shows "d_faults (deck s') = [] \<and> r = None"
proof (cases "length (buttons (config s)) \<le> key \<or> buttons (config s) ! key = None")
  case True
  with assms(1) have "set_key_empty key s = (r, s')"
    by (auto simp: update_body_cases split: if_splits)
  from set_key_empty_frame(10)[OF this assms(2)] assms(3) show ?thesis by simp
next
  case False
  then obtain b where b: "buttons (config s) ! key = Some b" and n: "key < length (buttons (config s))"
    by auto
  then have "Some b \<in> set (buttons (config s))" by (metis nth_mem)
  with assms(4) have ok: "icon b = [] \<or> files s (path_join (assets_path s) (icon b @ ''.svg'')) \<noteq> None"
    by blast
  from assms(1) b n have "set_key_image key b s = (r, s')"
    by (simp add: update_body_cases)
  from set_key_image_total[OF this assms(2) ok assms(3)] show ?thesis .
qed

lemma update_loop_total:
  assumes "d_faults (deck s) = []" and "\<forall>k \<in> set ks. k < length (last_images s)"
    and "\<forall>b. Some b \<in> set (buttons (config s)) \<longrightarrow>
           icon b = [] \<or> files s (path_join (assets_path s) (icon b @ ''.svg'')) \<noteq> None"
  shows "fst (for_each ks update_body s) = None"
  using assms
proof (induction ks arbitrary: s)
  case Nil
  then show ?case by simp
next
  case (Cons a ks)
  obtain r s1 where b: "update_body a s = (r, s1)" by (cases "update_body a s")
  note f = update_body_frame[OF b]
  have t: "d_faults (deck s1) = [] \<and> r = None"
    by (rule update_body_total[OF b Cons.prems(1) _ Cons.prems(3)]) (use Cons.prems(2) in simp)
  have "fst (for_each ks update_body s1) = None"
    by (rule Cons.IH) (use t f Cons.prems in auto)
  with b t show ?case by simp
qed

text \<open>
  C9.  With \<^verbatim>\<open>remote_connected\<close> true and one stored tag per key, as \<^verbatim>\<open>__init__\<close> leaves
  them, an update never raises \<^verbatim>\<open>IndexError\<close> (nor \<^verbatim>\<open>KeyError\<close>): a key at or beyond the
  length of the button sequence is handled by \<^verbatim>\<open>set_key_empty\<close> and carries the empty tag
  when the update returns.  When no transport call fails and the icon of every configured
  button can be loaded, the update returns.
\<close>

theorem update_guards_button_index:
  assumes "remote_connected (config s)" and "d_key_count (deck s) \<le> length (last_images s)"
  shows "fst (update s) \<noteq> Some IndexError \<and> fst (update s) \<noteq> Some KeyError
     \<and> (\<forall>k. length (buttons (config s)) \<le> k \<longrightarrow> update_body k s = set_key_empty k s)
     \<and> (fst (update s) = None \<longrightarrow>
          (\<forall>k < d_key_count (deck s). length (buttons (config s)) \<le> k \<longrightarrow>
             last_images (snd (update s)) ! k = empty_tag))
     \<and> (d_faults (deck s) = [] \<and>
          (\<forall>b. Some b \<in> set (buttons (config s)) \<longrightarrow>
             icon b = [] \<or> files s (path_join (assets_path s) (icon b @ ''.svg'')) \<noteq> None) \<longrightarrow>
          fst (update s) = None)"
proof -
  let ?n = "d_key_count (deck s)"
  have u: "update s = for_each [0..<?n] update_body s"
    using assms(1) by (simp add: update_def)
  have inr: "\<forall>k \<in> set [0..<?n]. k < length (last_images s)"
    using assms(2) by simp
  have e: "fst (update s) \<noteq> Some IndexError \<and> fst (update s) \<noteq> Some KeyError"
    using update_loop_errors[OF inr] u by simp
  have b: "\<forall>k. length (buttons (config s)) \<le> k \<longrightarrow> update_body k s = set_key_empty k s"
    by (simp add: update_body_cases)
  have t: "fst (update s) = None \<longrightarrow>
          (\<forall>k < ?n. length (buttons (config s)) \<le> k \<longrightarrow>
             last_images (snd (update s)) ! k = empty_tag)"
  proof (intro impI allI)
    fix k
    assume "fst (update s) = None" and k: "k < ?n" and l: "length (buttons (config s)) \<le> k"
    then have "for_each [0..<?n] update_body s = (None, snd (update s))"
      using u by (simp add: prod_eq_iff)
    from update_loop_empty_slots[OF this _ _ l, of ] k
    show "last_images (snd (update s)) ! k = empty_tag"
      by (simp add: empty_tag_def)
  qed
  have tot: "d_faults (deck s) = [] \<and>
          (\<forall>b. Some b \<in> set (buttons (config s)) \<longrightarrow>
             icon b = [] \<or> files s (path_join (assets_path s) (icon b @ ''.svg'')) \<noteq> None) \<longrightarrow>
          fst (update s) = None"
    using update_loop_total[of s "[0..<?n]"] inr u by simp
  from e b t tot show ?thesis by blast
qed

theorem update_guards_button_index_witness:
  "remote_connected (config (demo_opened\<lparr>config := online\<rparr>))
   \<and> d_key_count (deck (demo_opened\<lparr>config := online\<rparr>)) \<le>
       length (last_images (demo_opened\<lparr>config := online\<rparr>))
   \<and> length (buttons (config (demo_opened\<lparr>config := online\<rparr>))) = 1
   \<and> d_key_count (deck (demo_opened\<lparr>config := online\<rparr>)) = 2
   \<and> d_faults (deck (demo_opened\<lparr>config := online\<rparr>)) = []
   \<and> buttons (config (demo_opened\<lparr>config := online\<rparr>)) = [Some gear_on]
   \<and> files (demo_opened\<lparr>config := online\<rparr>)
        (path_join (assets_path (demo_opened\<lparr>config := online\<rparr>)) (icon gear_on @ ''.svg'')) \<noteq> None
   \<and> update_body 1 (demo_opened\<lparr>config := online\<rparr>) =
       set_key_empty 1 (demo_opened\<lparr>config := online\<rparr>)
   \<and> update (demo_opened\<lparr>config := online\<rparr>) = (None, demo_online)
   \<and> last_images demo_online ! 1 = empty_tag"
  using update_guards_button_index[of "demo_opened\<lparr>config := online\<rparr>"] update_demo_online
  by (simp add: state_defs path_join_def empty_tag_def update_body_def)

subsection \<open>Closing and reopening\<close>

lemma then_do_None:
  "then_do f g s = (None, s2) \<Longrightarrow> \<exists>s1. f s = (None, s1) \<and> g s1 = (None, s2)"
  by (auto simp: then_do_def split: prod.splits option.splits)

lemma update_body_writes_background:
  assumes "update_body k s = (None, s')" and "last_images s ! k = (''render_all'', None)"
  shows "\<exists>img. d_trace (deck s') = d_trace (deck s) @ [HwSetKeyImage k img]"
proof (cases "length (buttons (config s)) \<le> k \<or> buttons (config s) ! k = None")
  case True
  with assms(1) have e: "set_key_empty k s = (None, s')"
    by (auto simp: update_body_cases split: if_splits)
  from set_key_empty_frame(9)[OF e] have "k < length (last_images s)" by simp
  from set_key_empty_once[OF this] e assms(2) show ?thesis
    by (auto simp: writes_once_def empty_tag_def)
next
  case False
  then obtain b where b: "buttons (config s) ! k = Some b" and n: "k < length (buttons (config s))"
    by auto
  with assms(1) have e: "set_key_image k b s = (None, s')"
    by (simp add: update_body_cases)
  from set_key_image_frame[OF e] have len: "k < length (last_images s)" by simp
  obtain q s1 where rk: "render_button b s = (q, s1)" by (cases "render_button b s")
  from set_key_image_outcome[OF e] rk obtain img where q: "q = Inr img"
    by (cases q) auto
  note f1 = render_key_fields[OF rk[unfolded render_button_def]]
  from set_key_image_once[OF len rk[unfolded q]] e assms(2) f1 show ?thesis
    by (auto simp: writes_once_def rendered_tag_def)
qed

lemma update_loop_writes_all:
  "for_each ks update_body s = (None, s') \<Longrightarrow> distinct ks \<Longrightarrow>
   \<forall>k \<in> set ks. last_images s ! k = (''render_all'', None) \<Longrightarrow>
   map fst (key_writes (d_trace (deck s'))) = map fst (key_writes (d_trace (deck s))) @ ks"
proof (induction ks arbitrary: s)
  case Nil
  then show ?case by simp
next
  case (Cons a ks)
  obtain r s1 where b: "update_body a s = (r, s1)" by (cases "update_body a s")
  with Cons.prems(1) have r: "r = None" and rest: "for_each ks update_body s1 = (None, s')"
    by (auto split: option.splits)
  from update_body_writes_background[OF b[unfolded r]] Cons.prems(3)
  obtain img where tr: "d_trace (deck s1) = d_trace (deck s) @ [HwSetKeyImage a img]" by auto
  have "\<forall>k \<in> set ks. last_images s1 ! k = (''render_all'', None)"
  proof
    fix k assume k: "k \<in> set ks"
    with Cons.prems(2) have "k \<noteq> a" by auto
    with update_body_frame[OF b, of k] Cons.prems(3) k
    show "last_images s1 ! k = (''render_all'', None)" by simp
  qed
  from Cons.IH[OF rest _ this] Cons.prems(2) tr show ?case
    by (simp add: key_writes_append)
qed

text \<open>
  C2, as the code has it.  After the session of an open controller was closed, every key
  carries the background tag, not the value \<^verbatim>\<open>__init__\<close> stored.  So the first update after
  a reopening writes every key once, in order, when \<^verbatim>\<open>remote_connected\<close> is true, and
  writes no key when it is false.
\<close>

theorem close_leaves_background_tags:
  assumes "d_is_open (deck s)" and "close_session s = (None, s1)"
    and "open_session (s1\<lparr>config := c\<rparr>) = (None, s2)"
  shows "(\<forall>k < d_key_count (deck s). last_images s1 ! k = background_tag)
     \<and> (if remote_connected c
         then map fst (key_writes (d_trace (deck s2))) =
                map fst (key_writes (d_trace (deck s1))) @ [0..<d_key_count (deck s)]
         else key_writes (d_trace (deck s2)) = key_writes (d_trace (deck s1)))"
proof -
  let ?n = "d_key_count (deck s)"
  from assms(1,2) have "then_do render_default_background (deck_call HwClose) s = (None, s1)"
    by (simp add: close_session_def close_deck_def)
  from then_do_None[OF this] obtain sa where
    bg: "render_default_background s = (None, sa)" and cl: "deck_call HwClose sa = (None, s1)"
    by blast
  from bg have loop: "for_each [0..<?n] (render_all_keys_body (default_background s)) s = (None, sa)"
    by (simp add: render_default_background_def render_all_keys_def)
  have ta: "\<forall>k \<in> set [0..<?n]. k < length (last_images sa) \<and> last_images sa ! k = (''render_all'', None)"
    using render_all_loop_tags[OF loop] by blast
  have na: "d_key_count (deck sa) = ?n"
    using render_all_loop_key_count[of "[0..<?n]" "default_background s" s] loop by simp
  note fc = deck_call_fields[OF cl]
  have t1: "\<forall>k \<in> set [0..<?n]. k < length (last_images s1) \<and> last_images s1 ! k = (''render_all'', None)"
    using ta fc(1) by simp
  have n1: "d_key_count (deck s1) = ?n" using na fc(10) by simp
  from assms(3) have "then_do (deck_call HwOpen)
       (then_do (deck_call HwGetSerialNumber)
          (then_do (deck_call HwGetFirmwareVersion)
             (then_do (deck_call (HwSetBrightness 80))
                (then_do set_key_callback update)))) (s1\<lparr>config := c\<rparr>) = (None, s2)"
    by (simp add: open_session_def)
  then obtain o1 o2 o3 o4 o5 where
    c1: "deck_call HwOpen (s1\<lparr>config := c\<rparr>) = (None, o1)" and
    c2: "deck_call HwGetSerialNumber o1 = (None, o2)" and
    c3: "deck_call HwGetFirmwareVersion o2 = (None, o3)" and
    c4: "deck_call (HwSetBrightness 80) o3 = (None, o4)" and
    c5: "set_key_callback o4 = (None, o5)" and
    u: "update o5 = (None, s2)"
    by (blast dest: then_do_None)
  note g1 = deck_call_fields[OF c1] and g2 = deck_call_fields[OF c2]
    and g3 = deck_call_fields[OF c3] and g4 = deck_call_fields[OF c4]
  from c5 have o5: "o5 = o4\<lparr>deck := (deck o4)\<lparr>d_has_callback := True\<rparr>\<rparr>"
    by (simp add: set_key_callback_def)
  have l5: "last_images o5 = last_images s1"
    using g1(1) g2(1) g3(1) g4(1) o5 by simp
  have n5: "d_key_count (deck o5) = ?n"
    using g1(10) g2(10) g3(10) g4(10) o5 n1 by simp
  have cfg5: "config o5 = c"
    using g1(3) g2(3) g3(3) g4(3) o5 by simp
  have tr5: "d_trace (deck o5) =
      d_trace (deck s1) @ [HwOpen, HwGetSerialNumber, HwGetFirmwareVersion, HwSetBrightness 80]"
    using g1(8) g2(8) g3(8) g4(8) o5 by simp
  have kw5: "key_writes (d_trace (deck o5)) = key_writes (d_trace (deck s1))"
    by (simp add: tr5 key_writes_append)
  have t5: "\<forall>k \<in> set [0..<?n]. k < length (last_images o5) \<and> last_images o5 ! k = (''render_all'', None)"
    using t1 l5 by simp
  have tags: "\<forall>k < ?n. last_images s1 ! k = background_tag"
    using t1 by (simp add: background_tag_def)
  show ?thesis
  proof (cases "remote_connected c")
    case True
    with u cfg5 n5 have "for_each [0..<?n] update_body o5 = (None, s2)"
      by (simp add: update_def)
    from update_loop_writes_all[OF this] t5
    have "map fst (key_writes (d_trace (deck s2))) =
        map fst (key_writes (d_trace (deck o5))) @ [0..<?n]"
      by simp
    with kw5 tags True show ?thesis by simp
  next
    case False
    with u cfg5 n5 have "for_each [0..<?n] (render_all_keys_body (default_background o5)) o5 = (None, s2)"
      by (simp add: update_def render_default_background_def render_all_keys_def)
    moreover from render_all_loop_idle[OF t5]
    have "snd (for_each [0..<?n] (render_all_keys_body (default_background o5)) o5) = o5"
      by blast
    ultimately have "s2 = o5" by simp
    with kw5 tags False show ?thesis by simp
  qed
qed

theorem close_leaves_background_tags_witness:
  "d_is_open (deck demo_online)
   \<and> fst (close_session demo_online) = None
   \<and> fst (open_session ((snd (close_session demo_online))\<lparr>config := online\<rparr>)) = None
   \<and> remote_connected online
   \<and> last_images (snd (close_session demo_online)) = [background_tag, background_tag]
   \<and> map fst (key_writes (d_trace (deck (snd (close_session demo_online))))) = [0, 1, 0, 1, 0, 1]
   \<and> map fst (key_writes (d_trace (deck
        (snd (open_session ((snd (close_session demo_online))\<lparr>config := online\<rparr>)))))) =
       [0, 1, 0, 1, 0, 1, 0, 1]"
proof -
  let ?s1 = "snd (close_session demo_online)"
  let ?s2 = "snd (open_session (?s1\<lparr>config := online\<rparr>))"
  have h1: "d_is_open (deck demo_online)" by (simp add: state_defs)
  have f2: "fst (close_session demo_online) = None"
    by (simp add: run_defs state_defs)
  have h2: "close_session demo_online = (None, ?s1)"
    using f2 by (simp add: prod_eq_iff)
  have f3: "fst (open_session (?s1\<lparr>config := online\<rparr>)) = None"
    by (simp add: run_defs state_defs)
  have h3: "open_session (?s1\<lparr>config := online\<rparr>) = (None, ?s2)"
    using f3 by (simp add: prod_eq_iff)
  have e1: "last_images ?s1 = [background_tag, background_tag]"
    by (simp add: run_defs state_defs background_tag_def)
  have e2: "map fst (key_writes (d_trace (deck ?s1))) = [0, 1, 0, 1, 0, 1]"
    by (simp add: run_defs state_defs)
  have n: "d_key_count (deck demo_online) = 2" by (simp add: state_defs)
  have r: "remote_connected online" by (simp add: online_def)
  from close_leaves_background_tags[OF h1 h2 h3] r n e2
  have "map fst (key_writes (d_trace (deck ?s2))) = [0, 1, 0, 1, 0, 1, 0, 1]"
    by (simp add: upt_2)
  with h1 f2 f3 e1 e2 r show ?thesis by simp
qed

text \<open>
  The controller built by \<^verbatim>\<open>__init__\<close>, opened, closed and opened again with the remote
  side away throughout: after the close both keys carry the background tag, and the
  update of the second opening writes neither.
\<close>

theorem close_keeps_background_tags_counterexample:
  "init demo_deck offline ''assets'' demo_files = Inr demo
   \<and> open_session demo = (None, demo_opened)
   \<and> close_session demo_opened = (None, demo_closed)
   \<and> last_images demo_closed = [background_tag, background_tag]
   \<and> last_images demo_closed \<noteq> [unknown_tag, unknown_tag]
   \<and> d_key_count (deck demo_closed) = 2
   \<and> fst (open_session demo_closed) = None
   \<and> key_writes (d_trace (deck (snd (open_session demo_closed)))) =
       key_writes (d_trace (deck demo_closed))"
  by (simp add: init_demo open_demo close_demo)
     (simp add: run_defs state_defs background_tag_def unknown_tag_def)

subsection \<open>Transport errors\<close>

lemma calls_accounted_idle:
  "d_trace (deck s') = d_trace (deck s) \<Longrightarrow> d_faults (deck s') = d_faults (deck s) \<Longrightarrow>
   calls_accounted s (r, s')"
  by (simp add: calls_accounted_def raised_between_def)

lemma calls_accounted_deck_call:
  "calls_accounted s (deck_call op s)"
  by (cases "d_faults (deck s)")
     (auto simp: calls_accounted_def raised_between_def deck_call_def transport_def
        hw_effect_def Let_def drop_Suc split: hw_op.splits)

lemma calls_accounted_trans:
  assumes "calls_accounted s (None, s1)" and "calls_accounted s1 r"
  shows "calls_accounted s r"
proof -
  let ?t = "length (d_trace (deck s))" and ?t1 = "length (d_trace (deck s1))"
    and ?t2 = "length (d_trace (deck (snd r)))"
  let ?fs = "d_faults (deck s)"
  from assms have le1: "?t \<le> ?t1" and le2: "?t1 \<le> ?t2"
    and d1: "d_faults (deck s1) = drop (?t1 - ?t) ?fs"
    and d2: "d_faults (deck (snd r)) = drop (?t2 - ?t1) (d_faults (deck s1))"
    and clean1: "True \<notin> set (take (?t1 - ?t) ?fs)"
    and r2: "True \<in> set (take (?t2 - ?t1) (d_faults (deck s1))) \<Longrightarrow> fst r = Some TransportError"
    by (auto simp: calls_accounted_def raised_between_def split: if_splits)
  have split: "?t2 - ?t = (?t1 - ?t) + (?t2 - ?t1)" using le1 le2 by simp
  have dr: "d_faults (deck (snd r)) = drop (?t2 - ?t) ?fs"
    using d1 d2 split by (simp add: add.commute)
  have tk: "take (?t2 - ?t) ?fs = take (?t1 - ?t) ?fs @ take (?t2 - ?t1) (drop (?t1 - ?t) ?fs)"
    unfolding split by (simp add: take_add)
  have "True \<in> set (take (?t2 - ?t) ?fs) \<Longrightarrow> fst r = Some TransportError"
    using tk clean1 r2 d1 by auto
  with le1 le2 dr show ?thesis
    by (auto simp: calls_accounted_def raised_between_def)
qed

lemma calls_accounted_then_do:
  assumes "\<And>t. calls_accounted t (f t)" and "\<And>t. calls_accounted t (g t)"
  shows "calls_accounted s (then_do f g s)"
proof -
  obtain r s1 where f: "f s = (r, s1)" by (cases "f s")
  show ?thesis
  proof (cases r)
    case None
    have "calls_accounted s (None, s1)" using assms(1)[of s] f None by simp
    from calls_accounted_trans[OF this assms(2)[of s1]] f None show ?thesis
      by (simp add: then_do_def)
  next
    case (Some e)
    with assms(1)[of s] f show ?thesis by (simp add: then_do_def)
  qed
qed

lemma calls_accounted_for_each:
  assumes "\<And>k t. calls_accounted t (body k t)"
  shows "calls_accounted s (for_each ks body s)"
proof (induction ks arbitrary: s)
  case Nil
  show ?case by (simp add: calls_accounted_idle)
next
  case (Cons k ks)
  obtain r s1 where b: "body k s = (r, s1)" by (cases "body k s")
  show ?case
  proof (cases r)
    case None
    have "calls_accounted s (None, s1)" using assms[of s k] b None by simp
    from calls_accounted_trans[OF this Cons.IH[of s1]] b None show ?thesis by simp
  next
    case (Some e)
    with assms[of s k] b show ?thesis by simp
  qed
qed

lemma calls_accounted_render_all_keys_body:
  "calls_accounted s (render_all_keys_body key_images k s)"
proof (cases "\<exists>img. key_images k = Some img \<and> k < length (last_images s)
    \<and> last_images s ! k \<noteq> (''render_all'', None)")
  case True
  then obtain img where i: "key_images k = Some img" and l: "k < length (last_images s)"
    and d: "last_images s ! k \<noteq> (''render_all'', None)" by blast
  obtain r s1 where dc: "deck_call (HwSetKeyImage k img) s = (r, s1)"
    by (cases "deck_call (HwSetKeyImage k img) s")
  have "calls_accounted s (r, s1)" using calls_accounted_deck_call[of s "HwSetKeyImage k img"] dc by simp
  then show ?thesis using i l d dc
    by (cases r) (auto simp: render_all_keys_body_def Let_def calls_accounted_def raised_between_def)
next
  case False
  then have "snd (render_all_keys_body key_images k s) = s"
    by (auto simp: render_all_keys_body_def Let_def split: option.splits)
  then show ?thesis
    using calls_accounted_idle[of s s "fst (render_all_keys_body key_images k s)"]
    by (metis prod.collapse)
qed

lemma calls_accounted_set_key_empty:
  "calls_accounted s (set_key_empty key s)"
proof (cases "key < length (last_images s) \<and> last_images s ! key \<noteq> (''empty_key'', None)")
  case True
  obtain r s1 where dc: "deck_call (HwSetKeyImage key (empty_image s)) s = (r, s1)"
    by (cases "deck_call (HwSetKeyImage key (empty_image s)) s")
  have "calls_accounted s (r, s1)"
    using calls_accounted_deck_call[of s "HwSetKeyImage key (empty_image s)"] dc by simp
  then show ?thesis using True dc
    by (cases r) (auto simp: set_key_empty_def empty_image_def Let_def calls_accounted_def raised_between_def)
next
  case False
  then have "snd (set_key_empty key s) = s"
    by (auto simp: set_key_empty_def Let_def)
  then show ?thesis
    using calls_accounted_idle[of s s "fst (set_key_empty key s)"]
    by (metis prod.collapse)
qed

lemma calls_accounted_set_key_image:
  "calls_accounted s (set_key_image key b s)"
proof -
  obtain r s' where e: "set_key_image key b s = (r, s')" by (cases "set_key_image key b s")
  from set_key_image_outcome[OF e] obtain q s1 where
    rk: "render_button b s = (q, s1)" and
    oc: "case q of
        Inl e \<Rightarrow> r = Some FileNotFoundError \<and> s' = s1
      | Inr img \<Rightarrow>
          if length (last_images s1) \<le> key then r = Some IndexError \<and> s' = s1
          else if last_images s1 ! key = rendered_tag b then r = None \<and> s' = s1
          else \<exists>s2. deck_call (HwSetKeyImage key img) s1 = (r, s2) \<and>
                 (r = None \<or> r = Some TransportError) \<and>
                 s' = (if r = None then s2\<lparr>last_images := (last_images s2)[key := rendered_tag b]\<rparr>
                       else s2)"
    by blast
  note f1 = render_key_fields[OF rk[unfolded render_button_def]]
  have idle: "s' = s1 \<Longrightarrow> calls_accounted s (r, s')"
    using f1 by (simp add: calls_accounted_idle)
  have "calls_accounted s (r, s')"
  proof (cases q)
    case (Inl x)
    with oc idle show ?thesis by simp
  next
    case (Inr img)
    show ?thesis
    proof (cases "length (last_images s1) \<le> key \<or> last_images s1 ! key = rendered_tag b")
      case True
      with oc Inr idle show ?thesis by (auto split: if_splits)
    next
      case False
      with oc Inr obtain s2 where dc: "deck_call (HwSetKeyImage key img) s1 = (r, s2)"
        and s': "s' = (if r = None then s2\<lparr>last_images := (last_images s2)[key := rendered_tag b]\<rparr>
                       else s2)"
        by auto
      have "calls_accounted s1 (r, s2)"
        using calls_accounted_deck_call[of s1 "HwSetKeyImage key img"] dc by simp
      then show ?thesis using s' f1
        by (auto simp: calls_accounted_def raised_between_def)
    qed
  qed
  with e show ?thesis by simp
qed

lemma calls_accounted_update_body:
  "calls_accounted s (update_body key s)"
  by (simp add: update_body_cases calls_accounted_set_key_empty calls_accounted_set_key_image
      split: option.splits)

lemma calls_accounted_render_default_background:
  "calls_accounted s (render_default_background s)"
  unfolding render_default_background_def render_all_keys_def
  by (rule calls_accounted_for_each) (rule calls_accounted_render_all_keys_body)

lemma calls_accounted_update:
  "calls_accounted s (update s)"
  unfolding update_def
  by (simp add: calls_accounted_render_default_background calls_accounted_for_each
      calls_accounted_update_body)

lemma calls_accounted_set_key_callback:
  "calls_accounted s (set_key_callback s)"
  by (simp add: set_key_callback_def calls_accounted_idle)

lemma calls_accounted_open_session:
  "calls_accounted s (open_session s)"
  unfolding open_session_def
  by (intro calls_accounted_then_do calls_accounted_deck_call calls_accounted_set_key_callback
      calls_accounted_update)

lemma calls_accounted_close_session:
  "calls_accounted s (close_session s)"
  unfolding close_session_def close_deck_def
  by (auto intro: calls_accounted_then_do calls_accounted_deck_call
      calls_accounted_render_default_background calls_accounted_idle)

text \<open>
  C8, as the code has it.  A \<^verbatim>\<open>TransportError\<close> raised while closing is swallowed only
  when the session is left through \<^verbatim>\<open>__exit__\<close>: that method never ends in
  \<^verbatim>\<open>TransportError\<close>, and when the close inside it raised one it returns normally from
  the state the close had reached.  \<^verbatim>\<open>close\<close> itself, called directly, has no handler:
  when a transport call raised during it, it ends in \<^verbatim>\<open>TransportError\<close>.  So do \<^verbatim>\<open>open\<close>
  (and \<^verbatim>\<open>__enter__\<close>), an update and the write of a key.
\<close>

theorem transport_error_swallowed_only_on_exit:
  "fst (exit_session s) \<noteq> Some TransportError
   \<and> (fst (close_session s) = Some TransportError \<longrightarrow>
        exit_session s = (None, snd (close_session s)))
   \<and> (raised_between s (snd (close_session s)) \<longrightarrow>
        fst (close_session s) = Some TransportError \<and> fst (close_deck s) = Some TransportError)
   \<and> (raised_between s (snd (open_session s)) \<longrightarrow>
        fst (open_session s) = Some TransportError \<and> fst (enter s) = Some TransportError)
   \<and> (raised_between s (snd (update s)) \<longrightarrow> fst (update s) = Some TransportError)
   \<and> (raised_between s (snd (set_key_image key b s)) \<longrightarrow>
        fst (set_key_image key b s) = Some TransportError)
   \<and> (raised_between s (snd (set_key_empty key s)) \<longrightarrow>
        fst (set_key_empty key s) = Some TransportError)
   \<and> (raised_between s (snd (render_all_keys key_images s)) \<longrightarrow>
        fst (render_all_keys key_images s) = Some TransportError)"
proof -
  have ex: "fst (exit_session s) \<noteq> Some TransportError
     \<and> (fst (close_session s) = Some TransportError \<longrightarrow>
          exit_session s = (None, snd (close_session s)))"
    by (cases "close_session s")
       (auto simp: exit_session_def split: option.splits error.splits)
  have ra: "calls_accounted s (render_all_keys key_images s)"
    unfolding render_all_keys_def
    by (rule calls_accounted_for_each) (rule calls_accounted_render_all_keys_body)
  have cl: "raised_between s (snd (close_session s)) \<longrightarrow>
      fst (close_session s) = Some TransportError \<and> fst (close_deck s) = Some TransportError"
    using calls_accounted_close_session[of s]
    by (simp add: calls_accounted_def close_session_def)
  show ?thesis
    using ex cl calls_accounted_open_session[of s] calls_accounted_update[of s]
      calls_accounted_set_key_image[of s key b] calls_accounted_set_key_empty[of s key] ra
    by (simp add: calls_accounted_def enter_def)
qed

theorem transport_error_swallowed_only_on_exit_witness:
  "raised_between (with_faults [True] demo_opened)
     (snd (close_session (with_faults [True] demo_opened)))
   \<and> fst (close_session (with_faults [True] demo_opened)) = Some TransportError
   \<and> exit_session (with_faults [True] demo_opened) =
       (None, snd (close_session (with_faults [True] demo_opened)))
   \<and> raised_between (with_faults [True] demo) (snd (open_session (with_faults [True] demo)))
   \<and> fst (open_session (with_faults [True] demo)) = Some TransportError
   \<and> fst (enter (with_faults [True] demo)) = Some TransportError
   \<and> raised_between (with_faults [False, True] (demo_opened\<lparr>config := online\<rparr>))
        (snd (update (with_faults [False, True] (demo_opened\<lparr>config := online\<rparr>))))
   \<and> fst (update (with_faults [False, True] (demo_opened\<lparr>config := online\<rparr>))) =
       Some TransportError
   \<and> raised_between (with_faults [True] demo_opened)
        (snd (set_key_image 0 gear_on (with_faults [True] demo_opened)))
   \<and> fst (set_key_image 0 gear_on (with_faults [True] demo_opened)) = Some TransportError
   \<and> raised_between (with_faults [True] demo_opened)
        (snd (set_key_empty 0 (with_faults [True] demo_opened)))
   \<and> fst (set_key_empty 0 (with_faults [True] demo_opened)) = Some TransportError
   \<and> raised_between (with_faults [True] demo)
        (snd (render_all_keys (default_background demo) (with_faults [True] demo)))
   \<and> fst (render_all_keys (default_background demo) (with_faults [True] demo)) =
       Some TransportError"
  using transport_error_swallowed_only_on_exit[of "with_faults [True] demo_opened" 0 gear_on
      "default_background demo"]
    transport_error_swallowed_only_on_exit[of "with_faults [True] demo" 0 gear_on
      "default_background demo"]
    transport_error_swallowed_only_on_exit[of
      "with_faults [False, True] (demo_opened\<lparr>config := online\<rparr>)" 0 gear_on
      "default_background demo"]
  by (simp add: run_defs state_defs raised_between_def)

text \<open>
  The open controller, with a device that makes the next transport call raise: \<^verbatim>\<open>close\<close>,
  called directly, ends in \<^verbatim>\<open>TransportError\<close>; only \<^verbatim>\<open>__exit__\<close> returns normally.
\<close>

theorem close_propagates_transport_error_counterexample:
  "d_is_open (deck (with_faults [True] demo_opened))
   \<and> raised_between (with_faults [True] demo_opened)
        (snd (close_session (with_faults [True] demo_opened)))
   \<and> fst (close_session (with_faults [True] demo_opened)) = Some TransportError
   \<and> fst (close_deck (with_faults [True] demo_opened)) = Some TransportError
   \<and> fst (exit_session (with_faults [True] demo_opened)) = None"
  by (simp add: run_defs state_defs raised_between_def)

end
